theory Spec2Isabelle
  imports Main "HOL-Library.AList" "HOL-Library.Sublist" "HOL-Library.Word"
begin

text \<open>
  \<open>RecognizeStream\<close> is a duplex stream: binary audio is written to it, it sends the
  audio over a WebSocket to the speech service and pushes the transcripts that the
  service returns. This theory embeds its parameter builder, its handlers of the
  socket events and its write path, and proves the properties claimed of them.
\<close>

section \<open>JavaScript values and objects\<close>

text \<open>
  The stream handles untyped JavaScript data: the caller's \<open>options\<close> object and the
  JSON frames of the service. A value is one of the JSON kinds plus \<open>undefined\<close>.
  An object is an association list in insertion order, the order JavaScript keeps for
  string keys; \<open>map_of\<close> reads a property, \<open>AList.update\<close> assigns one (in place when
  the key exists, appended otherwise) and \<open>AList.delete\<close> is the \<open>delete\<close> operator.
  Numbers are integers here (no claim depends on fractions or NaN); functions and
  class instances stored in the options (a token manager, say) are objects.
\<close>

datatype jsval =
    JUndefined
  | JNull
  | JBool bool
  | JNum int
  | JStr string
  | JArr "jsval list"
  | JObj "(string \<times> jsval) list"

type_synonym obj = "(string \<times> jsval) list"

type_synonym chunk = "8 word list"

text \<open>JavaScript's ToBoolean, as used by \<open>if (x)\<close>, \<open>!x\<close>, \<open>x && y\<close> and \<open>x || y\<close>.\<close>

fun truthy :: "jsval \<Rightarrow> bool" where
  "truthy JUndefined = False"
| "truthy JNull = False"
| "truthy (JBool b) = b"
| "truthy (JNum n) = (n \<noteq> 0)"
| "truthy (JStr s) = (s \<noteq> [])"
| "truthy (JArr xs) = True"
| "truthy (JObj kvs) = True"

text \<open>\<open>key in obj\<close> and \<open>obj[key]\<close> (\<open>undefined\<close> for a missing property).\<close>

definition has_key :: "obj \<Rightarrow> string \<Rightarrow> bool" where
  "has_key ob k = (map_of ob k \<noteq> None)"

definition get :: "obj \<Rightarrow> string \<Rightarrow> jsval" where
  "get ob k = (case map_of ob k of None \<Rightarrow> JUndefined | Some v \<Rightarrow> v)"

definition keys :: "obj \<Rightarrow> string set" where
  "keys ob = fst ` set ob"

text \<open>
  \<open>object.pick\<close>: for each key of the list, in order, \<open>if (key in obj) res[key] = obj[key]\<close>.
\<close>

definition pick :: "obj \<Rightarrow> string list \<Rightarrow> obj" where
  "pick ob ks =
     foldl (\<lambda>res key. if has_key ob key then AList.update key (get ob key) res else res) [] ks"

text \<open>
  \<open>extend(target, source)\<close>, shallow: every property of the source whose value is not
  \<open>undefined\<close> is assigned to the target.
\<close>

definition extend_obj :: "obj \<Rightarrow> obj \<Rightarrow> obj" where
  "extend_obj target source =
     foldl (\<lambda>t (name, copy). if copy \<noteq> JUndefined then AList.update name copy t else t)
       target source"

section \<open>Connection parameters\<close>

definition OPENING_MESSAGE_PARAMS_ALLOWED :: "string list" where
  "OPENING_MESSAGE_PARAMS_ALLOWED =
     [''action'', ''customization_weight'', ''processing_metrics'',
      ''processing_metrics_interval'', ''audio_metrics'', ''inactivity_timeout'',
      ''timestamps'', ''word_confidence'', ''content-type'', ''interim_results'',
      ''keywords'', ''keywords_threshold'', ''max_alternatives'',
      ''word_alternatives_threshold'', ''profanity_filter'', ''smart_formatting'',
      ''speaker_labels'', ''grammar_name'', ''redaction'']"

definition QUERY_PARAMS_ALLOWED :: "string list" where
  "QUERY_PARAMS_ALLOWED =
     [''model'', ''X-Watson-Learning-Opt-Out'', ''watson-token'',
      ''language_customization_id'', ''customization_id'', ''acoustic_customization_id'',
      ''access_token'', ''base_model_version'', ''x-watson-metadata'']"

definition DEFAULT_MODEL :: jsval where
  "DEFAULT_MODEL = JStr ''en-US_BroadbandModel''"

text \<open>
  The four deprecated-name fallbacks at the head of \<open>initialize\<close>, one function each,
  in the order of the source. Each test is the source's: the old field is truthy and
  the modern field is falsy.
\<close>

definition fallback_token :: "obj \<Rightarrow> obj" where
  "fallback_token ob =
     (if truthy (get ob ''token'') \<and> \<not> truthy (get ob ''watson-token'')
      then AList.update ''watson-token'' (get ob ''token'') ob else ob)"

definition fallback_content_type :: "obj \<Rightarrow> obj" where
  "fallback_content_type ob =
     (if truthy (get ob ''content_type'') \<and> \<not> truthy (get ob ''content-type'')
      then AList.update ''content-type'' (get ob ''content_type'') ob else ob)"

definition fallback_opt_out :: "obj \<Rightarrow> obj" where
  "fallback_opt_out ob =
     (if truthy (get ob ''X-WDC-PL-OPT-OUT'') \<and> \<not> truthy (get ob ''X-Watson-Learning-Opt-Out'')
      then AList.update ''X-Watson-Learning-Opt-Out'' (get ob ''X-WDC-PL-OPT-OUT'') ob else ob)"

definition fallback_customization_id :: "obj \<Rightarrow> obj" where
  "fallback_customization_id ob =
     (if truthy (get ob ''customization_id'') \<and> \<not> truthy (get ob ''language_customization_id'')
      then AList.delete ''customization_id''
             (AList.update ''language_customization_id'' (get ob ''customization_id'') ob)
      else ob)"

definition apply_deprecated :: "obj \<Rightarrow> obj" where
  "apply_deprecated ob =
     fallback_customization_id (fallback_opt_out (fallback_content_type (fallback_token ob)))"

text \<open>
  \<open>queryParams\<close> and \<open>openingMessage\<close> as \<open>initialize\<close> computes them from the options
  after the fallbacks.
\<close>

definition queryParams :: "obj \<Rightarrow> obj" where
  "queryParams ob =
     extend_obj (if has_key ob ''language_customization_id''
             then pick ob QUERY_PARAMS_ALLOWED
             else [(''model'', DEFAULT_MODEL)])
            (pick ob QUERY_PARAMS_ALLOWED)"

definition openingMessage :: "obj \<Rightarrow> obj" where
  "openingMessage ob =
     AList.update ''action'' (JStr ''start'') (pick ob OPENING_MESSAGE_PARAMS_ALLOWED)"

definition buildQuery :: "obj \<Rightarrow> obj" where
  "buildQuery ob = queryParams (apply_deprecated ob)"

definition buildHandshake :: "obj \<Rightarrow> obj" where
  "buildHandshake ob = openingMessage (apply_deprecated ob)"

section \<open>Inbound frames and output shaping\<close>

text \<open>
  A frame of the socket is binary (\<open>typeof frame.data !== 'string'\<close>), or text that
  \<open>JSON.parse\<close> rejects (with the message of the exception), or text with its parsed
  value. \<open>JSON.parse\<close> belongs to the runtime; a frame is given with its outcome.
\<close>

datatype frame =
    BinaryFrame chunk
  | InvalidJSON string
  | JSONFrame jsval

text \<open>
  Reading a named property \<open>x.name\<close>: a TypeError (\<open>None\<close>) on \<open>undefined\<close> and
  \<open>null\<close>, the property of an object, and \<open>undefined\<close> on the other kinds for the
  names the stream reads (none of them is \<open>length\<close> or an index). \<open>index0\<close> is
  \<open>x[0]\<close>.
\<close>

fun getprop :: "jsval \<Rightarrow> string \<Rightarrow> jsval option" where
  "getprop JUndefined k = None"
| "getprop JNull k = None"
| "getprop (JObj kvs) k = Some (get kvs k)"
| "getprop v k = Some JUndefined"

fun index0 :: "jsval \<Rightarrow> jsval option" where
  "index0 JUndefined = None"
| "index0 JNull = None"
| "index0 (JArr []) = Some JUndefined"
| "index0 (JArr (x # xs)) = Some x"
| "index0 (JStr []) = Some JUndefined"
| "index0 (JStr (c # cs)) = Some (JStr [c])"
| "index0 (JObj kvs) = Some (get kvs ''0'')"
| "index0 v = Some JUndefined"

text \<open>
  What the stream does is recorded as a list of actions, oldest first: the events it
  emits, the calls of \<open>push\<close> on its readable side (\<open>push(null)\<close> ends the output),
  the calls on the socket, the scheduling of the write callback and of timers, and an
  exception that leaves a handler.
\<close>

datatype emitted =
    EvError string jsval
  | EvErrorRaised jsval
  | EvOpen
  | EvClose nat string
  | EvListening
  | EvMessage frame
  | EvSendJson obj
  | EvSendData chunk
  | EvStop

datatype action =
    Emit emitted
  | Push jsval
  | PushNull
  | ConsoleWarn
  | NewSocket obj jsval
  | SocketSendText obj
  | SocketSendBinary chunk
  | SocketClose
  | NextTick
  | SetTimeout nat
  | Throw string

definition push :: "jsval \<Rightarrow> action" where
  "push v = (if v = JNull then PushNull else Push v)"

text \<open>
  The body of \<open>data.results.forEach\<close> in text mode: \<open>None\<close> is the TypeError of
  reading a property of \<open>undefined\<close> or \<open>null\<close>, which ends the whole loop.
\<close>

definition result_push :: "jsval \<Rightarrow> action list option" where
  "result_push result =
     (case getprop result ''final'' of
        None \<Rightarrow> None
      | Some final \<Rightarrow>
          if truthy final then
            (case getprop result ''alternatives'' of
               None \<Rightarrow> None
             | Some alternatives \<Rightarrow>
                 if truthy alternatives then
                   (case index0 alternatives of
                      None \<Rightarrow> None
                    | Some first \<Rightarrow>
                        (case getprop first ''transcript'' of
                           None \<Rightarrow> None
                         | Some transcript \<Rightarrow> Some [push transcript]))
                 else Some [])
          else Some [])"

fun forEach_result :: "jsval list \<Rightarrow> action list" where
  "forEach_result [] = []"
| "forEach_result (result # rest) =
     (case result_push result of
        None \<Rightarrow> [Throw ''TypeError'']
      | Some pushed \<Rightarrow> pushed @ forEach_result rest)"

section \<open>The stream\<close>

datatype readyState = CONNECTING | OPEN | CLOSING | CLOSED

record socket =
  readyState :: readyState
  bufferedAmount :: nat

datatype open_listener = SendChunk chunk | SendStop

text \<open>
  The fields of \<open>RecognizeStream\<close>, with what the closures of \<open>initialize\<close> capture
  (\<open>openingMessage\<close>), the listeners registered with \<open>once('open', ...)\<close> in the order
  of registration, the watermark of the writable side
  (\<open>_writableState.highWaterMark\<close>), the number of pending \<open>setTimeout\<close> calls of
  \<open>afterSend\<close>, and the actions so far.
\<close>

record recognize_stream =
  options :: obj
  listening :: bool
  initialized :: bool
  finished :: bool
  socket :: "socket option"
  handshake :: obj
  open_once :: "open_listener list"
  highWaterMark :: "nat option"
  timers :: nat
  actions :: "action list"

definition act :: "action list \<Rightarrow> recognize_stream \<Rightarrow> recognize_stream" where
  "act as s = s\<lparr>actions := actions s @ as\<rparr>"

definition WEBSOCKET_CONNECTION_ERROR :: string where
  "WEBSOCKET_CONNECTION_ERROR = ''WebSocket connection error''"

definition ERROR_UNRECOGNIZED_FORMAT :: string where
  "ERROR_UNRECOGNIZED_FORMAT = ''UNRECOGNIZED_FORMAT''"

text \<open>
  The constructor: \<open>objectMode\<close> is an alias of \<open>readableObjectMode\<close>. The watermark
  is what the \<open>Duplex\<close> constructor derives from the options; it is given.
\<close>

definition RecognizeStream :: "obj \<Rightarrow> nat option \<Rightarrow> recognize_stream" where
  "RecognizeStream opts hwm =
     \<lparr>options =
        (if truthy (get opts ''objectMode'')
         then AList.delete ''objectMode'' (AList.update ''readableObjectMode'' (JBool True) opts)
         else opts),
      listening = False, initialized = False, finished = False, socket = None,
      handshake = [], open_once = [], highWaterMark = hwm, timers = 0, actions = []\<rparr>"

text \<open>
  \<open>socket.send\<close> of the websocket package throws unless the socket is open. A handler
  that throws returns \<open>Inl\<close> with the state at the throw, \<open>Inr\<close> otherwise.
\<close>

definition is_open :: "recognize_stream \<Rightarrow> bool" where
  "is_open s = (case socket s of None \<Rightarrow> False | Some sk \<Rightarrow> readyState sk = OPEN)"

definition socket_send :: "action \<Rightarrow> recognize_stream \<Rightarrow> recognize_stream + recognize_stream" where
  "socket_send a s =
     (if is_open s then Inr (act [a] s)
      else Inl (act [Throw ''cannot call send() while not connected''] s))"

definition sendJSON :: "obj \<Rightarrow> recognize_stream \<Rightarrow> recognize_stream + recognize_stream" where
  "sendJSON msg s = socket_send (SocketSendText msg) (act [Emit (EvSendJson msg)] s)"

definition sendData :: "chunk \<Rightarrow> recognize_stream \<Rightarrow> recognize_stream + recognize_stream" where
  "sendData data s = socket_send (SocketSendBinary data) (act [Emit (EvSendData data)] s)"

definition watermark :: "recognize_stream \<Rightarrow> nat" where
  "watermark s = (case highWaterMark s of None \<Rightarrow> 0 | Some h \<Rightarrow> h)"

text \<open>
  \<open>afterSend(next)\<close>: \<open>process.nextTick(next)\<close> hands the write callback to the
  writable side, which then accepts the next chunk; otherwise the check is repeated
  after 10 ms.
\<close>

definition afterSend :: "recognize_stream \<Rightarrow> recognize_stream" where
  "afterSend s =
     (case socket s of
        None \<Rightarrow> act [Throw ''TypeError''] s
      | Some sk \<Rightarrow>
          if bufferedAmount sk \<le> watermark s then act [NextTick] s
          else act [SetTimeout 10] (s\<lparr>timers := timers s + 1\<rparr>))"

definition closingMessage :: obj where
  "closingMessage = [(''action'', JStr ''stop'')]"

definition finish :: "recognize_stream \<Rightarrow> recognize_stream" where
  "finish s =
     (if finished s then s
      else
        let s1 = s\<lparr>finished := True\<rparr> in
        if is_open s1 then (case sendJSON closingMessage s1 of Inl t \<Rightarrow> t | Inr t \<Rightarrow> t)
        else s1\<lparr>open_once := open_once s1 @ [SendStop]\<rparr>)"

definition stop :: "recognize_stream \<Rightarrow> recognize_stream" where
  "stop s = finish (act [Emit EvStop] s)"

text \<open>
  \<open>initialize\<close>: the fallbacks (with the warning of the first), the query and the
  opening message, the new socket (connecting, nothing buffered) and its handlers.
  The URL is the base URL followed by the query string of \<open>queryParams\<close>; the action
  keeps the parameters and \<open>options.headers\<close>.
\<close>

definition initialize :: "recognize_stream \<Rightarrow> recognize_stream" where
  "initialize s =
     (let warn = (if truthy (get (options s) ''token'')
                     \<and> \<not> truthy (get (options s) ''watson-token'')
                  then [ConsoleWarn] else []);
          opts = apply_deprecated (options s)
      in s\<lparr>options := opts,
            handshake := openingMessage opts,
            socket := Some \<lparr>readyState = CONNECTING, bufferedAmount = 0\<rparr>,
            initialized := True,
            actions := actions s @ warn @ [NewSocket (queryParams opts) (get opts ''headers'')]\<rparr>)"

text \<open>
  \<open>emitError(msg, frame)\<close> emits an \<open>error\<close> event with a new \<open>Error(msg)\<close>; the raw
  frame that it attaches is left out. Its third argument, the exception of
  \<open>JSON.parse\<close>, occurs once and is written out in \<open>onmessage\<close>. \<open>socket.close()\<close>
  starts the closing handshake.
\<close>

definition emitError :: "jsval \<Rightarrow> recognize_stream \<Rightarrow> recognize_stream" where
  "emitError msg s = act [Emit (EvError ''Error'' msg)] s"

definition socket_close :: "recognize_stream \<Rightarrow> recognize_stream" where
  "socket_close s =
     act [SocketClose]
       (s\<lparr>socket := map_option (\<lambda>sk. sk\<lparr>readyState := CLOSING\<rparr>) (socket s)\<rparr>)"

definition onerror :: "recognize_stream \<Rightarrow> recognize_stream" where
  "onerror s =
     act [Emit (EvError WEBSOCKET_CONNECTION_ERROR (JStr ''WebSocket connection error'')),
          PushNull]
       (s\<lparr>listening := False\<rparr>)"

definition onclose :: "nat \<Rightarrow> string \<Rightarrow> recognize_stream \<Rightarrow> recognize_stream" where
  "onclose code reason s = act [PushNull, Emit (EvClose code reason)] (s\<lparr>listening := False\<rparr>)"

fun run_listener :: "open_listener \<Rightarrow> recognize_stream \<Rightarrow> recognize_stream + recognize_stream" where
  "run_listener (SendChunk chunk) s =
     (case sendData chunk s of Inl t \<Rightarrow> Inl t | Inr t \<Rightarrow> Inr (afterSend t))"
| "run_listener SendStop s = sendJSON closingMessage s"

text \<open>
  \<open>emit('open')\<close> calls the listeners present at the call, in order; a \<open>once\<close>
  listener is removed before its body runs, and an exception leaves the rest registered.
\<close>

fun emit_open :: "open_listener list \<Rightarrow> recognize_stream \<Rightarrow> recognize_stream" where
  "emit_open [] s = s"
| "emit_open (l # ls) s =
     (case run_listener l (s\<lparr>open_once := remove1 l (open_once s)\<rparr>) of
        Inl t \<Rightarrow> t
      | Inr t \<Rightarrow> emit_open ls t)"

definition onopen :: "recognize_stream \<Rightarrow> recognize_stream" where
  "onopen s =
     (case sendJSON (handshake s) s of
        Inl t \<Rightarrow> t
      | Inr t \<Rightarrow> emit_open (open_once t) (act [Emit EvOpen] t))"

definition onmessage :: "frame \<Rightarrow> recognize_stream \<Rightarrow> recognize_stream" where
  "onmessage fr s =
     (case fr of
        BinaryFrame b \<Rightarrow> emitError (JStr ''Unexpected binary data received from server'') s
      | InvalidJSON m \<Rightarrow>
          act [Emit (EvError ''SyntaxError''
                 (JStr (''Invalid JSON received from service:'' @ '' '' @ m)))] s
      | JSONFrame data \<Rightarrow>
          let s1 = act [Emit (EvMessage fr)] s in
          (case getprop data ''error'' of
             None \<Rightarrow> act [Throw ''TypeError''] s1
           | Some err \<Rightarrow>
               if truthy err then emitError err s1
               else if getprop data ''state'' = Some (JStr ''listening'') then
                 (if listening s1 then socket_close (s1\<lparr>listening := False\<rparr>)
                  else act [Emit EvListening] (s1\<lparr>listening := True\<rparr>))
               else if truthy (get (options s1) ''readableObjectMode'') then act [push data] s1
               else
                 (case getprop data ''results'' of
                    Some (JArr results) \<Rightarrow> act (forEach_result results) s1
                  | _ \<Rightarrow> s1)))"

text \<open>
  The token manager answers \<open>getToken\<close> with an error and a token; the reply is given
  with the text that \<open>'Bearer ' + token\<close> appends. After \<open>callback(err)\<close> the source
  does not return: the header is set and \<open>callback(null)\<close> follows.
\<close>

datatype token_reply = Reply jsval string

definition as_obj :: "jsval \<Rightarrow> obj" where
  "as_obj v = (case v of JObj kvs \<Rightarrow> kvs | _ \<Rightarrow> [])"

definition setAuthorizationHeaderToken ::
  "token_reply \<Rightarrow> (jsval \<Rightarrow> recognize_stream \<Rightarrow> recognize_stream) \<Rightarrow>
   recognize_stream \<Rightarrow> recognize_stream" where
  "setAuthorizationHeaderToken reply callback s =
     (if truthy (get (options s) ''token_manager'') then
        (case reply of Reply err token \<Rightarrow>
           let s1 = (if truthy err then callback err s else s);
               authHeader = [(''authorization'', JStr (''Bearer '' @ token))];
               headers = extend_obj (as_obj (get (options s1) ''headers'')) authHeader
           in callback JNull
                (s1\<lparr>options := AList.update ''headers'' (JObj headers) (options s1)\<rparr>))
      else callback JNull s)"

text \<open>
  \<open>_write\<close>. The sniffer \<open>contentType.fromHeader\<close> comes from another package and is a
  parameter: it returns the content type for a recognised header and \<open>undefined\<close>
  otherwise. \<open>connect_then_send\<close> is the tail of the first write: \<open>initialize\<close>, then
  the chunk waits for the \<open>open\<close> event. \<open>write_callback\<close> is the function that
  \<open>_write\<close> passes to \<open>setAuthorizationHeaderToken\<close>.
\<close>

definition connect_then_send :: "chunk \<Rightarrow> recognize_stream \<Rightarrow> recognize_stream" where
  "connect_then_send chunk s =
     (let s1 = initialize s in s1\<lparr>open_once := open_once s1 @ [SendChunk chunk]\<rparr>)"

definition write_callback ::
  "(chunk \<Rightarrow> jsval) \<Rightarrow> chunk \<Rightarrow> jsval \<Rightarrow> recognize_stream \<Rightarrow> recognize_stream" where
  "write_callback fromHeader chunk err s =
     (if truthy err then act [Emit (EvErrorRaised err), PushNull] s
      else if finished s then s
      else if \<not> initialized s then
        (if \<not> truthy (get (options s) ''content-type'')
            \<and> \<not> truthy (get (options s) ''content_type'')
         then
           (let ct = fromHeader chunk in
            if truthy ct
            then connect_then_send chunk
                   (s\<lparr>options := AList.update ''content-type'' ct (options s)\<rparr>)
            else act [Emit (EvError ERROR_UNRECOGNIZED_FORMAT
                         (JStr ''Unable to determine content-type from file header, please specify manually.'')),
                      PushNull] s)
         else connect_then_send chunk s)
      else (case sendData chunk s of Inl t \<Rightarrow> t | Inr t \<Rightarrow> afterSend t))"

definition write_chunk :: "(chunk \<Rightarrow> jsval) \<Rightarrow> chunk \<Rightarrow> token_reply \<Rightarrow> recognize_stream \<Rightarrow> recognize_stream" where
  "write_chunk fromHeader chunk reply s =
     setAuthorizationHeaderToken reply (write_callback fromHeader chunk) s"

section \<open>Events and runs\<close>

text \<open>
  What can happen to a stream: the writable side calls \<open>_write\<close> (it does so for one
  chunk at a time, the next after the write callback, which the runs do not have to
  respect); the caller calls \<open>finish\<close> or \<open>stop\<close>; the
  writable side emits \<open>finish\<close> at the end of the input, which \<open>initialize\<close> has bound
  to \<open>finish\<close>; the socket opens, delivers a frame, fails or closes; its
  \<open>bufferedAmount\<close> changes; a timer of \<open>afterSend\<close> fires. The socket has handlers
  only once \<open>initialize\<close> has created it, opens only while connecting and delivers
  frames only between its opening and its closing.
\<close>

datatype event =
    Write chunk token_reply
  | Finish
  | Stop
  | StreamFinish
  | SocketOpen
  | SocketMessage frame
  | SocketError
  | SocketClosed nat string
  | Buffered nat
  | Timeout

definition set_ready :: "readyState \<Rightarrow> recognize_stream \<Rightarrow> recognize_stream" where
  "set_ready r s = s\<lparr>socket := map_option (\<lambda>sk. sk\<lparr>readyState := r\<rparr>) (socket s)\<rparr>"

fun step :: "(chunk \<Rightarrow> jsval) \<Rightarrow> recognize_stream \<Rightarrow> event \<Rightarrow> recognize_stream" where
  "step fromHeader s (Write chunk reply) = write_chunk fromHeader chunk reply s"
| "step fromHeader s Finish = finish s"
| "step fromHeader s Stop = stop s"
| "step fromHeader s StreamFinish = (if initialized s then finish s else s)"
| "step fromHeader s SocketOpen =
     (case socket s of
        None \<Rightarrow> s
      | Some sk \<Rightarrow> if readyState sk = CONNECTING then onopen (set_ready OPEN s) else s)"
| "step fromHeader s (SocketMessage fr) =
     (case socket s of
        None \<Rightarrow> s
      | Some sk \<Rightarrow>
          if readyState sk = OPEN \<or> readyState sk = CLOSING then onmessage fr s else s)"
| "step fromHeader s SocketError =
     (case socket s of None \<Rightarrow> s | Some sk \<Rightarrow> onerror (set_ready CLOSED s))"
| "step fromHeader s (SocketClosed code reason) =
     (case socket s of None \<Rightarrow> s | Some sk \<Rightarrow> onclose code reason (set_ready CLOSED s))"
| "step fromHeader s (Buffered n) =
     s\<lparr>socket := map_option (\<lambda>sk. sk\<lparr>bufferedAmount := n\<rparr>) (socket s)\<rparr>"
| "step fromHeader s Timeout =
     (if 0 < timers s then afterSend (s\<lparr>timers := timers s - 1\<rparr>) else s)"

definition run :: "(chunk \<Rightarrow> jsval) \<Rightarrow> event list \<Rightarrow> recognize_stream \<Rightarrow> recognize_stream" where
  "run fromHeader evs s = foldl (step fromHeader) s evs"

section \<open>Notions used in the statements\<close>

subsection \<open>Options\<close>

text \<open>
  A deprecated name is mapped when the old field is set and the modern one is not, both in
  the sense of the source's tests: set means truthy.
\<close>

definition fires :: "string \<Rightarrow> string \<Rightarrow> obj \<Rightarrow> bool" where
  "fires old new ob = (truthy (get ob old) \<and> \<not> truthy (get ob new))"

subsection \<open>Output events\<close>

text \<open>
  The output events of the readable side are the calls of \<open>push\<close>. A result is final
  or interim by its \<open>final\<close> field; \<open>first_transcript\<close> reads
  \<open>alternatives[0].transcript\<close>.
\<close>

definition is_output :: "action \<Rightarrow> bool" where
  "is_output a = (case a of Push v \<Rightarrow> True | PushNull \<Rightarrow> True | _ \<Rightarrow> False)"

definition outputs :: "action list \<Rightarrow> action list" where
  "outputs as = filter is_output as"

definition is_final :: "jsval \<Rightarrow> bool" where
  "is_final r = (case getprop r ''final'' of Some f \<Rightarrow> truthy f | None \<Rightarrow> False)"

definition is_interim :: "jsval \<Rightarrow> bool" where
  "is_interim r = (case getprop r ''final'' of Some f \<Rightarrow> \<not> truthy f | None \<Rightarrow> False)"

definition first_transcript :: "jsval \<Rightarrow> jsval option" where
  "first_transcript r =
     (case getprop r ''alternatives'' of
        None \<Rightarrow> None
      | Some alts \<Rightarrow> (case index0 alts of None \<Rightarrow> None | Some f \<Rightarrow> getprop f ''transcript''))"

text \<open>
  A result emits a transcript when it is final and has alternatives (both truthy, as the
  source tests them); \<open>transcript_of\<close> is the transcript of its first alternative.
  A result is readable when the loop can read it without a TypeError: it is neither
  \<open>null\<close> nor \<open>undefined\<close> and, if it emits a transcript, it has a first alternative
  that is neither.
\<close>

definition emits_transcript :: "jsval \<Rightarrow> bool" where
  "emits_transcript r =
     (is_final r \<and> (case getprop r ''alternatives'' of Some a \<Rightarrow> truthy a | None \<Rightarrow> False))"

definition transcript_of :: "jsval \<Rightarrow> jsval" where
  "transcript_of r = (case first_transcript r of Some t \<Rightarrow> t | None \<Rightarrow> JUndefined)"

definition first_alternative :: "jsval \<Rightarrow> jsval option" where
  "first_alternative r =
     (case getprop r ''alternatives'' of None \<Rightarrow> None | Some a \<Rightarrow> index0 a)"

definition readable :: "jsval \<Rightarrow> bool" where
  "readable r =
     (if emits_transcript r
      then (case first_alternative r of
              Some x \<Rightarrow> x \<noteq> JNull \<and> x \<noteq> JUndefined
            | None \<Rightarrow> False)
      else getprop r ''final'' \<noteq> None)"

subsection \<open>Observations on the actions\<close>

text \<open>
  The binary chunks sent on the socket, in order; the number of \<open>stop\<close> frames sent;
  the number of times the write callback was handed over.
\<close>

fun binary_sends :: "action list \<Rightarrow> chunk list" where
  "binary_sends [] = []"
| "binary_sends (SocketSendBinary c # as) = c # binary_sends as"
| "binary_sends (a # as) = binary_sends as"

definition is_stop :: "action \<Rightarrow> bool" where
  "is_stop a = (case a of SocketSendText m \<Rightarrow> get m ''action'' = JStr ''stop'' | _ \<Rightarrow> False)"

definition stop_frames :: "action list \<Rightarrow> nat" where
  "stop_frames as = length (filter is_stop as)"

definition ticks :: "action list \<Rightarrow> nat" where
  "ticks as = length (filter (\<lambda>a. a = NextTick) as)"

text \<open>
  No chunk is sent before the \<open>open\<close> event, respectively before the first
  \<open>listening\<close> frame is received (every parsed frame is announced by a \<open>message\<close>
  event).
\<close>

definition no_binary_before_open :: "action list \<Rightarrow> bool" where
  "no_binary_before_open as = (binary_sends (takeWhile (\<lambda>a. a \<noteq> Emit EvOpen) as) = [])"

definition is_listening_received :: "action \<Rightarrow> bool" where
  "is_listening_received a =
     (case a of
        Emit (EvMessage (JSONFrame d)) \<Rightarrow> getprop d ''state'' = Some (JStr ''listening'')
      | _ \<Rightarrow> False)"

definition no_binary_before_listening :: "action list \<Rightarrow> bool" where
  "no_binary_before_listening as =
     (binary_sends (takeWhile (\<lambda>a. \<not> is_listening_received a) as) = [])"

subsection \<open>States and events\<close>

text \<open>
  The socket is connecting; the stream is flowing (socket open, initialised, not
  finished); the buffered amount is at or below the watermark. The chunks and the
  \<open>stop\<close> messages waiting for the \<open>open\<close> event.
\<close>

definition connecting :: "recognize_stream \<Rightarrow> bool" where
  "connecting s = (case socket s of None \<Rightarrow> False | Some sk \<Rightarrow> readyState sk = CONNECTING)"

definition flowing :: "recognize_stream \<Rightarrow> bool" where
  "flowing s = (is_open s \<and> initialized s \<and> \<not> finished s)"

definition drained :: "recognize_stream \<Rightarrow> bool" where
  "drained s = (case socket s of None \<Rightarrow> False | Some sk \<Rightarrow> bufferedAmount sk \<le> watermark s)"

fun pending_chunks :: "open_listener list \<Rightarrow> chunk list" where
  "pending_chunks [] = []"
| "pending_chunks (SendChunk c # ls) = c # pending_chunks ls"
| "pending_chunks (SendStop # ls) = pending_chunks ls"

definition pending_stops :: "recognize_stream \<Rightarrow> nat" where
  "pending_stops s = length (filter (\<lambda>l. l = SendStop) (open_once s))"

text \<open>
  The events of the write path under backpressure (a write, a change of the buffered
  amount, a timer), the chunks written by a list of events, and the events that are
  not writes.
\<close>

definition is_flow :: "event \<Rightarrow> bool" where
  "is_flow e = (case e of Write c r \<Rightarrow> True | Buffered n \<Rightarrow> True | Timeout \<Rightarrow> True | _ \<Rightarrow> False)"

fun written :: "event list \<Rightarrow> chunk list" where
  "written [] = []"
| "written (Write c r # evs) = c # written evs"
| "written (e # evs) = written evs"

definition is_write :: "event \<Rightarrow> bool" where
  "is_write e = (case e of Write c r \<Rightarrow> True | _ \<Rightarrow> False)"

text \<open>
  What the write path adds to the actions. \<open>afterSend_action\<close> is the outcome of
  \<open>afterSend\<close> on a stream with a socket: the write callback is handed over, or a timer
  of 10 ms is armed. \<open>token_error_actions\<close> is what \<open>_write\<close> does first when the
  token manager reports an error (it goes on to send the chunk, since
  \<open>setAuthorizationHeaderToken\<close> calls its callback a second time).
  \<open>open_listener_actions\<close> is what a listener of the \<open>open\<close> event does on an open
  socket.
\<close>

definition afterSend_action :: "recognize_stream \<Rightarrow> action" where
  "afterSend_action s = (if drained s then NextTick else SetTimeout 10)"

definition token_error_actions :: "recognize_stream \<Rightarrow> token_reply \<Rightarrow> action list" where
  "token_error_actions s reply =
     (case reply of Reply err token \<Rightarrow>
        if truthy (get (options s) ''token_manager'') \<and> truthy err
        then [Emit (EvErrorRaised err), PushNull] else [])"

fun open_listener_actions :: "recognize_stream \<Rightarrow> open_listener \<Rightarrow> action list" where
  "open_listener_actions s (SendChunk c) =
     [Emit (EvSendData c), SocketSendBinary c, afterSend_action s]"
| "open_listener_actions s SendStop =
     [Emit (EvSendJson closingMessage), SocketSendText closingMessage]"

definition UNRECOGNIZED_MESSAGE :: jsval where
  "UNRECOGNIZED_MESSAGE =
     JStr ''Unable to determine content-type from file header, please specify manually.''"

subsection \<open>Auxiliary notions of the proofs\<close>

text \<open>
  The stream with the authorization header set; the invariant on \<open>stop\<close> messages
  (sent or pending: none before \<open>finish\<close>, at most one after); the invariant on binary
  sends (none while the socket has not opened).
\<close>

definition with_header :: "string \<Rightarrow> recognize_stream \<Rightarrow> recognize_stream" where
  "with_header token s =
     s\<lparr>options := AList.update ''headers''
          (JObj (extend_obj (as_obj (get (options s) ''headers''))
                   [(''authorization'', JStr (''Bearer '' @ token))])) (options s)\<rparr>"

definition stops_ok :: "recognize_stream \<Rightarrow> bool" where
  "stops_ok s =
     ((finished s \<longrightarrow> stop_frames (actions s) + pending_stops s = 1)
      \<and> (\<not> finished s \<longrightarrow> stop_frames (actions s) = 0 \<and> pending_stops s = 0)
      \<and> get (handshake s) ''action'' \<noteq> JStr ''stop'')"

definition open_inv :: "recognize_stream \<Rightarrow> bool" where
  "open_inv s =
     (no_binary_before_open (actions s)
      \<and> (Emit EvOpen \<in> set (actions s) \<or> (\<not> is_open s \<and> binary_sends (actions s) = [])))"

section \<open>Sample inputs\<close>

text \<open>Options with deprecated names, and options with keys outside both allow-lists.\<close>

definition legacy_options :: obj where
  "legacy_options =
     [(''token'', JStr ''t0''), (''content_type'', JStr ''audio/flac''),
      (''X-WDC-PL-OPT-OUT'', JBool True), (''customization_id'', JStr ''c1''),
      (''content-type'', JStr ''audio/wav'')]"

definition mixed_options :: obj where
  "mixed_options =
     [(''action'', JStr ''stop''), (''url'', JStr ''wss://example''),
      (''interim_results'', JBool True), (''token'', JStr ''t0''),
      (''readableObjectMode'', JBool True), (''model'', JStr ''fr-FR_BroadbandModel'')]"

text \<open>
  Options in which the modern opt-out field is present and \<open>false\<close> beside the
  deprecated one; options whose only customization id is the acoustic one.
\<close>

definition opt_out_options :: obj where
  "opt_out_options =
     [(''X-Watson-Learning-Opt-Out'', JBool False), (''X-WDC-PL-OPT-OUT'', JBool True)]"

definition acoustic_options :: obj where
  "acoustic_options = [(''acoustic_customization_id'', JStr ''a1'')]"

text \<open>
  A result frame with an interim result, a final result with two alternatives and a
  final result without alternatives; a \<open>listening\<close> frame; an error frame.
\<close>

definition sample_results :: "jsval list" where
  "sample_results =
     [JObj [(''final'', JBool False),
            (''alternatives'', JArr [JObj [(''transcript'', JStr ''hel'')]])],
      JObj [(''final'', JBool True),
            (''alternatives'', JArr [JObj [(''transcript'', JStr ''hello world'')],
                                     JObj [(''transcript'', JStr ''hollow world'')]])],
      JObj [(''final'', JBool True)]]"

definition sample_frame :: jsval where
  "sample_frame = JObj [(''results'', JArr sample_results), (''result_index'', JNum 0)]"

definition listening_frame :: jsval where
  "listening_frame = JObj [(''state'', JStr ''listening'')]"

definition error_frame :: jsval where
  "error_frame = JObj [(''error'', JStr ''Session timed out.'')]"

text \<open>
  Results in which a final result with an empty array of alternatives precedes a final
  result with a transcript, and the frame that carries them; a frame with the sample
  results beside an error.
\<close>

definition lost_results :: "jsval list" where
  "lost_results =
     [JObj [(''final'', JBool True), (''alternatives'', JArr [])],
      JObj [(''final'', JBool True),
            (''alternatives'', JArr [JObj [(''transcript'', JStr ''lost'')]])]]"

definition lost_frame :: obj where
  "lost_frame = [(''results'', JArr lost_results)]"

definition error_results_frame :: obj where
  "error_results_frame =
     [(''error'', JStr ''Session timed out.''), (''results'', JArr sample_results)]"

text \<open>
  Modelled from the spec: \<open>contentType.fromHeader\<close> is not among the sources. The
  sample sniffer knows the one signature the specification names, the \<open>RIFF\<close> header
  of WAV audio, and returns \<open>undefined\<close> otherwise. \<open>RIFF\<close> is a chunk with that
  header, \<open>noise\<close> a chunk without. No token manager is configured in the samples, so
  that the reply \<open>no_token\<close> is never read.
\<close>

definition RIFF :: chunk where
  "RIFF = [0x52, 0x49, 0x46, 0x46, 0x24, 0x08]"

definition noise :: chunk where
  "noise = [0, 1, 2, 3]"

definition wav_sniffer :: "chunk \<Rightarrow> jsval" where
  "wav_sniffer c =
     (if take 4 c = [0x52, 0x49, 0x46, 0x46] then JStr ''audio/wav'' else JUndefined)"

definition no_token :: token_reply where
  "no_token = Reply JNull []"

text \<open>
  A new stream without options; the same after the first write of \<open>RIFF\<close>; after the
  socket has opened; and with 20000 bytes buffered against a watermark of 16384. A
  new stream in object mode.
\<close>

definition sample_new :: recognize_stream where
  "sample_new = RecognizeStream [] (Some 16384)"

definition sample_connecting :: recognize_stream where
  "sample_connecting =
     \<lparr>options = [(''content-type'', JStr ''audio/wav'')], listening = False,
      initialized = True, finished = False,
      socket = Some \<lparr>readyState = CONNECTING, bufferedAmount = 0\<rparr>,
      handshake = [(''content-type'', JStr ''audio/wav''), (''action'', JStr ''start'')],
      open_once = [SendChunk RIFF], highWaterMark = Some 16384, timers = 0,
      actions = [NewSocket [(''model'', JStr ''en-US_BroadbandModel'')] JUndefined]\<rparr>"

definition sample_open :: recognize_stream where
  "sample_open =
     \<lparr>options = [(''content-type'', JStr ''audio/wav'')], listening = False,
      initialized = True, finished = False,
      socket = Some \<lparr>readyState = OPEN, bufferedAmount = 0\<rparr>,
      handshake = [(''content-type'', JStr ''audio/wav''), (''action'', JStr ''start'')],
      open_once = [], highWaterMark = Some 16384, timers = 0,
      actions =
        [NewSocket [(''model'', JStr ''en-US_BroadbandModel'')] JUndefined,
         Emit (EvSendJson [(''content-type'', JStr ''audio/wav''), (''action'', JStr ''start'')]),
         SocketSendText [(''content-type'', JStr ''audio/wav''), (''action'', JStr ''start'')],
         Emit EvOpen, Emit (EvSendData RIFF), SocketSendBinary RIFF, NextTick]\<rparr>"

definition sample_congested :: recognize_stream where
  "sample_congested =
     sample_open\<lparr>socket := Some \<lparr>readyState = OPEN, bufferedAmount = 20000\<rparr>\<rparr>"

definition object_stream :: recognize_stream where
  "object_stream = RecognizeStream [(''objectMode'', JBool True)] (Some 16384)"

text \<open>
  Runs: the connection closes before \<open>finish\<close> is called twice; an error frame arrives
  and another chunk is written; \<open>finish\<close> is called directly, through \<open>stop\<close> and
  through the end of the input, before and after the socket opens; chunks are written
  while the buffered amount rises and falls.
\<close>

definition early_close_run :: "event list" where
  "early_close_run = [Write RIFF no_token, SocketOpen, SocketClosed 1006 [], Finish, Finish]"

definition error_frame_run :: "event list" where
  "error_frame_run =
     [Write RIFF no_token, SocketOpen, SocketMessage (JSONFrame error_frame), Write noise no_token]"

definition finish_run :: "event list" where
  "finish_run = [Write RIFF no_token, Finish, Stop, SocketOpen, StreamFinish, Finish]"

definition flow_run :: "event list" where
  "flow_run =
     [Write noise no_token, Buffered 20000, Write RIFF no_token, Timeout, Buffered 0, Timeout]"

section \<open>Properties of the parameter builder\<close>

lemma keys_update: "keys (AList.update k v ob) = insert k (keys ob)"
  by (simp add: keys_def dom_update)

lemma keys_pick_acc:
  "keys (foldl (\<lambda>res key. if has_key ob key then AList.update key (get ob key) res else res)
           acc ks) \<subseteq> keys acc \<union> set ks"
proof (induction ks arbitrary: acc)
  case Nil
  show ?case by simp
next
  case (Cons a ks)
  let ?acc = "if has_key ob a then AList.update a (get ob a) acc else acc"
  have "keys ?acc \<subseteq> insert a (keys acc)"
    by (auto simp: keys_update)
  with Cons.IH [of ?acc] show ?case
    by auto
qed

lemma keys_pick: "keys (pick ob ks) \<subseteq> set ks"
  using keys_pick_acc [of ob "[]" ks] by (simp add: pick_def keys_def)

lemma keys_extend: "keys (extend_obj t src) \<subseteq> keys t \<union> keys src"
  unfolding extend_obj_def
proof (induction src arbitrary: t)
  case Nil
  show ?case by simp
next
  case (Cons p src)
  obtain name copy where p: "p = (name, copy)" by (cases p)
  let ?t = "if copy \<noteq> JUndefined then AList.update name copy t else t"
  have "keys ?t \<subseteq> insert name (keys t)"
    by (auto simp: keys_update)
  moreover have "keys (p # src) = insert name (keys src)"
    by (simp add: keys_def p)
  ultimately show ?case
    using Cons.IH [of ?t] by (auto simp: p)
qed

lemma get_update: "get (AList.update k v ob) k' = (if k' = k then v else get ob k')"
  by (simp add: get_def update_conv')

lemma get_delete: "get (AList.delete k ob) k' = (if k' = k then JUndefined else get ob k')"
  by (simp add: get_def delete_conv')

lemma has_key_update: "has_key (AList.update k v ob) k' = (k' = k \<or> has_key ob k')"
  by (simp add: has_key_def update_conv')

lemma has_key_delete: "has_key (AList.delete k ob) k' = (k' \<noteq> k \<and> has_key ob k')"
  by (simp add: has_key_def delete_conv')

lemma map_of_pick_acc:
  "map_of (foldl (\<lambda>res key. if has_key ob key then AList.update key (get ob key) res else res)
           acc ks) k =
   (if k \<in> set ks \<and> has_key ob k then Some (get ob k) else map_of acc k)"
  by (induction ks arbitrary: acc) (auto simp: update_conv')

lemma map_of_pick:
  "map_of (pick ob ks) k = (if k \<in> set ks \<and> has_key ob k then Some (get ob k) else None)"
  by (simp add: pick_def map_of_pick_acc)

lemma distinct_pick_acc:
  "distinct (map fst acc) \<Longrightarrow>
   distinct (map fst (foldl (\<lambda>res key. if has_key ob key then AList.update key (get ob key) res else res)
           acc ks))"
  by (induction ks arbitrary: acc) (auto simp: distinct_update)

lemma distinct_pick: "distinct (map fst (pick ob ks))"
  by (simp add: pick_def distinct_pick_acc)

lemma map_of_extend:
  "distinct (map fst src) \<Longrightarrow>
   map_of (extend_obj t src) k =
     (case map_of src k of
        None \<Rightarrow> map_of t k
      | Some v \<Rightarrow> if v \<noteq> JUndefined then Some v else map_of t k)"
  unfolding extend_obj_def
proof (induction src arbitrary: t)
  case Nil
  show ?case by simp
next
  case (Cons p src)
  obtain name copy where p: "p = (name, copy)" by (cases p)
  let ?t = "if copy \<noteq> JUndefined then AList.update name copy t else t"
  from Cons.prems have d: "distinct (map fst src)" and n: "name \<notin> fst ` set src"
    by (auto simp: p)
  from n have none: "map_of src name = None"
    by (simp add: map_of_eq_None_iff)
  show ?case
    using Cons.IH [OF d, of ?t] none
    by (auto simp: p update_conv' split: option.splits)
qed


lemma map_of_fallback_token:
  "k \<noteq> ''watson-token'' \<Longrightarrow> map_of (fallback_token ob) k = map_of ob k"
  by (simp add: fallback_token_def update_conv')

lemma map_of_fallback_content_type:
  "k \<noteq> ''content-type'' \<Longrightarrow> map_of (fallback_content_type ob) k = map_of ob k"
  by (simp add: fallback_content_type_def update_conv')

lemma map_of_fallback_opt_out:
  "k \<noteq> ''X-Watson-Learning-Opt-Out'' \<Longrightarrow> map_of (fallback_opt_out ob) k = map_of ob k"
  by (simp add: fallback_opt_out_def update_conv')

lemma map_of_fallback_customization_id:
  "k \<noteq> ''language_customization_id'' \<Longrightarrow> k \<noteq> ''customization_id'' \<Longrightarrow>
   map_of (fallback_customization_id ob) k = map_of ob k"
  by (simp add: fallback_customization_id_def update_conv' delete_conv')

lemma map_of_apply_deprecated_other:
  "k \<notin> {''watson-token'', ''content-type'', ''X-Watson-Learning-Opt-Out'',
         ''language_customization_id'', ''customization_id''} \<Longrightarrow>
   map_of (apply_deprecated ob) k = map_of ob k"
  by (simp add: apply_deprecated_def map_of_fallback_token map_of_fallback_content_type
      map_of_fallback_opt_out map_of_fallback_customization_id)

lemma map_of_apply_deprecated_model:
  "map_of (apply_deprecated ob) ''model'' = map_of ob ''model''"
  by (rule map_of_apply_deprecated_other) simp

lemma has_lang_fallback_customization_id:
  "has_key (fallback_customization_id ob) ''language_customization_id'' =
     (has_key ob ''language_customization_id'' \<or> truthy (get ob ''customization_id''))"
proof (cases "has_key ob ''language_customization_id''")
  case True
  then show ?thesis
    by (simp add: fallback_customization_id_def has_key_update has_key_delete)
next
  case False
  then have "get ob ''language_customization_id'' = JUndefined"
    by (simp add: has_key_def get_def)
  then show ?thesis using False
    by (simp add: fallback_customization_id_def has_key_update has_key_delete)
qed

lemma cust_keys_before:
  "map_of (fallback_opt_out (fallback_content_type (fallback_token ob))) ''language_customization_id''
     = map_of ob ''language_customization_id''"
  "map_of (fallback_opt_out (fallback_content_type (fallback_token ob))) ''customization_id''
     = map_of ob ''customization_id''"
  by (simp_all add: map_of_fallback_token map_of_fallback_content_type map_of_fallback_opt_out)

lemma has_lang_apply_deprecated:
  "has_key (apply_deprecated ob) ''language_customization_id'' =
     (has_key ob ''language_customization_id'' \<or> truthy (get ob ''customization_id''))"
  unfolding apply_deprecated_def has_lang_fallback_customization_id
  by (simp add: has_key_def get_def cust_keys_before)


lemma fires_cong:
  "map_of x old = map_of y old \<Longrightarrow> map_of x new = map_of y new \<Longrightarrow> fires old new x = fires old new y"
  by (simp add: fires_def get_def)

lemma fallback_token_id: "\<not> fires ''token'' ''watson-token'' ob \<Longrightarrow> fallback_token ob = ob"
  by (auto simp add: fires_def fallback_token_def)

lemma fallback_content_type_id:
  "\<not> fires ''content_type'' ''content-type'' ob \<Longrightarrow> fallback_content_type ob = ob"
  by (auto simp add: fires_def fallback_content_type_def)

lemma fallback_opt_out_id:
  "\<not> fires ''X-WDC-PL-OPT-OUT'' ''X-Watson-Learning-Opt-Out'' ob \<Longrightarrow> fallback_opt_out ob = ob"
  by (auto simp add: fires_def fallback_opt_out_def)

lemma fallback_customization_id_id:
  "\<not> fires ''customization_id'' ''language_customization_id'' ob \<Longrightarrow>
   fallback_customization_id ob = ob"
  by (auto simp add: fires_def fallback_customization_id_def)

lemma not_fires_fallback_token: "\<not> fires ''token'' ''watson-token'' (fallback_token ob)"
  by (simp add: fires_def fallback_token_def get_update)

lemma not_fires_fallback_content_type:
  "\<not> fires ''content_type'' ''content-type'' (fallback_content_type ob)"
  by (simp add: fires_def fallback_content_type_def get_update)

lemma not_fires_fallback_opt_out:
  "\<not> fires ''X-WDC-PL-OPT-OUT'' ''X-Watson-Learning-Opt-Out'' (fallback_opt_out ob)"
  by (simp add: fires_def fallback_opt_out_def get_update)

lemma not_fires_fallback_customization_id:
  "\<not> fires ''customization_id'' ''language_customization_id'' (fallback_customization_id ob)"
  by (simp add: fires_def fallback_customization_id_def get_update get_delete)

lemma not_fires_token_after:
  "\<not> fires ''token'' ''watson-token'' (apply_deprecated ob)"
proof -
  have "fires ''token'' ''watson-token'' (apply_deprecated ob)
        = fires ''token'' ''watson-token'' (fallback_token ob)"
    unfolding apply_deprecated_def
    by (rule fires_cong)
       (simp_all add: map_of_fallback_content_type map_of_fallback_opt_out
          map_of_fallback_customization_id)
  then show ?thesis by (simp add: not_fires_fallback_token)
qed

lemma not_fires_content_type_after:
  "\<not> fires ''content_type'' ''content-type'' (apply_deprecated ob)"
proof -
  have "fires ''content_type'' ''content-type'' (apply_deprecated ob)
        = fires ''content_type'' ''content-type'' (fallback_content_type (fallback_token ob))"
    unfolding apply_deprecated_def
    by (rule fires_cong)
       (simp_all add: map_of_fallback_opt_out map_of_fallback_customization_id)
  then show ?thesis by (simp add: not_fires_fallback_content_type)
qed

lemma not_fires_opt_out_after:
  "\<not> fires ''X-WDC-PL-OPT-OUT'' ''X-Watson-Learning-Opt-Out'' (apply_deprecated ob)"
proof -
  have "fires ''X-WDC-PL-OPT-OUT'' ''X-Watson-Learning-Opt-Out'' (apply_deprecated ob)
        = fires ''X-WDC-PL-OPT-OUT'' ''X-Watson-Learning-Opt-Out''
            (fallback_opt_out (fallback_content_type (fallback_token ob)))"
    unfolding apply_deprecated_def
    by (rule fires_cong) (simp_all add: map_of_fallback_customization_id)
  then show ?thesis by (simp add: not_fires_fallback_opt_out)
qed

lemma not_fires_customization_id_after:
  "\<not> fires ''customization_id'' ''language_customization_id'' (apply_deprecated ob)"
  unfolding apply_deprecated_def by (rule not_fires_fallback_customization_id)

lemma customization_id_moved:
  "fires ''customization_id'' ''language_customization_id'' ob \<Longrightarrow>
     \<not> has_key (apply_deprecated ob) ''customization_id''
     \<and> get (apply_deprecated ob) ''language_customization_id'' = get ob ''customization_id''"
  unfolding apply_deprecated_def fires_def
  by (simp add: fallback_customization_id_def get_def has_key_def cust_keys_before
      update_conv' delete_conv')

lemma update_changes: "get ob k \<noteq> v \<Longrightarrow> AList.update k v ob \<noteq> ob"
  by (metis get_update)

lemma fallback_token_fires:
  "(fallback_token ob \<noteq> ob)
     = (truthy (get ob ''token'') \<and> \<not> truthy (get ob ''watson-token''))"
  by (auto simp: fallback_token_def intro!: update_changes)

lemma fallback_content_type_fires:
  "(fallback_content_type ob \<noteq> ob)
     = (truthy (get ob ''content_type'') \<and> \<not> truthy (get ob ''content-type''))"
  by (auto simp: fallback_content_type_def intro!: update_changes)

lemma fallback_opt_out_fires:
  "(fallback_opt_out ob \<noteq> ob)
     = (truthy (get ob ''X-WDC-PL-OPT-OUT'') \<and> \<not> truthy (get ob ''X-Watson-Learning-Opt-Out''))"
  by (auto simp: fallback_opt_out_def intro!: update_changes)

lemma fallback_customization_id_fires:
  "(fallback_customization_id ob \<noteq> ob)
     = (truthy (get ob ''customization_id'') \<and> \<not> truthy (get ob ''language_customization_id''))"
proof (cases "truthy (get ob ''customization_id'') \<and> \<not> truthy (get ob ''language_customization_id'')")
  case True
  let ?ob = "AList.delete ''customization_id''
             (AList.update ''language_customization_id'' (get ob ''customization_id'') ob)"
  have "get ?ob ''language_customization_id'' = get ob ''customization_id''"
    by (simp add: get_delete get_update)
  with True have "?ob \<noteq> ob" by metis
  with True show ?thesis by (simp add: fallback_customization_id_def)
next
  case False
  then show ?thesis by (auto simp: fallback_customization_id_def)
qed

text \<open>
  Claim C9, as amended. Normalising the deprecated names is idempotent: for every
  options object, applying the four mappings (\<open>token\<close> to \<open>watson-token\<close>,
  \<open>content_type\<close> to \<open>content-type\<close>, \<open>X-WDC-PL-OPT-OUT\<close> to
  \<open>X-Watson-Learning-Opt-Out\<close>, \<open>customization_id\<close> to
  \<open>language_customization_id\<close> with removal of the old key) twice gives the same
  options as applying them once. Each mapping changes the options exactly when its
  deprecated field is set to a truthy value and its modern field is not: the modern
  field is absent, or it is present with a falsy value (\<open>false\<close>, \<open>0\<close>, the empty
  string, \<open>null\<close>, \<open>undefined\<close>), which the mapping then overwrites. When the last
  mapping fires, the modern field takes the old value and the old key is gone.
\<close>

theorem apply_deprecated_idempotent:
  "apply_deprecated (apply_deprecated ob) = apply_deprecated ob
   \<and> (fallback_token ob \<noteq> ob)
       = (truthy (get ob ''token'') \<and> \<not> truthy (get ob ''watson-token''))
   \<and> (fallback_content_type ob \<noteq> ob)
       = (truthy (get ob ''content_type'') \<and> \<not> truthy (get ob ''content-type''))
   \<and> (fallback_opt_out ob \<noteq> ob)
       = (truthy (get ob ''X-WDC-PL-OPT-OUT'') \<and> \<not> truthy (get ob ''X-Watson-Learning-Opt-Out''))
   \<and> (fallback_customization_id ob \<noteq> ob)
       = (truthy (get ob ''customization_id'') \<and> \<not> truthy (get ob ''language_customization_id''))
   \<and> (truthy (get ob ''customization_id'') \<and> \<not> truthy (get ob ''language_customization_id'') \<longrightarrow>
        \<not> has_key (apply_deprecated ob) ''customization_id''
        \<and> get (apply_deprecated ob) ''language_customization_id'' = get ob ''customization_id'')"
proof -
  let ?ob = "apply_deprecated ob"
  have "apply_deprecated ?ob = ?ob"
    unfolding apply_deprecated_def [of ?ob]
    by (simp add: fallback_token_id [OF not_fires_token_after]
        fallback_content_type_id [OF not_fires_content_type_after]
        fallback_opt_out_id [OF not_fires_opt_out_after]
        fallback_customization_id_id [OF not_fires_customization_id_after])
  moreover note customization_id_moved [of ob]
  ultimately show ?thesis
    unfolding fallback_token_fires fallback_content_type_fires fallback_opt_out_fires
      fallback_customization_id_fires
    by (simp add: fires_def)
qed

theorem apply_deprecated_idempotent_witness:
  "apply_deprecated legacy_options =
     [(''token'', JStr ''t0''), (''content_type'', JStr ''audio/flac''),
      (''X-WDC-PL-OPT-OUT'', JBool True), (''content-type'', JStr ''audio/wav''),
      (''watson-token'', JStr ''t0''), (''X-Watson-Learning-Opt-Out'', JBool True),
      (''language_customization_id'', JStr ''c1'')]
   \<and> apply_deprecated (apply_deprecated legacy_options) = apply_deprecated legacy_options
   \<and> truthy (get legacy_options ''token'')
   \<and> \<not> truthy (get legacy_options ''watson-token'')
   \<and> fallback_token legacy_options \<noteq> legacy_options
   \<and> truthy (get legacy_options ''content-type'')
   \<and> fallback_content_type legacy_options = legacy_options
   \<and> truthy (get legacy_options ''customization_id'')
   \<and> \<not> truthy (get legacy_options ''language_customization_id'')
   \<and> \<not> has_key (apply_deprecated legacy_options) ''customization_id''"
proof -
  have e: "apply_deprecated legacy_options =
     [(''token'', JStr ''t0''), (''content_type'', JStr ''audio/flac''),
      (''X-WDC-PL-OPT-OUT'', JBool True), (''content-type'', JStr ''audio/wav''),
      (''watson-token'', JStr ''t0''), (''X-Watson-Learning-Opt-Out'', JBool True),
      (''language_customization_id'', JStr ''c1'')]"
    by (simp add: apply_deprecated_def fallback_token_def fallback_content_type_def
        fallback_opt_out_def fallback_customization_id_def legacy_options_def get_def)
  have t: "truthy (get legacy_options ''content-type'')"
     "truthy (get legacy_options ''customization_id'')"
     "\<not> truthy (get legacy_options ''language_customization_id'')"
     "truthy (get legacy_options ''token'')"
     "\<not> truthy (get legacy_options ''watson-token'')"
    by (simp_all add: legacy_options_def get_def)
  note T = apply_deprecated_idempotent [of legacy_options]
  have 1: "fallback_token legacy_options \<noteq> legacy_options"
    using T t(4,5) by blast
  have 2: "fallback_content_type legacy_options = legacy_options"
    using T t(1) by blast
  have 3: "\<not> has_key (apply_deprecated legacy_options) ''customization_id''"
    using T t(2,3) by blast
  have 4: "apply_deprecated (apply_deprecated legacy_options) = apply_deprecated legacy_options"
    using T by blast
  show ?thesis
    using e t 1 2 3 4 by simp
qed

text \<open>
  Claim C9 as stated fails in its second part: a mapping also fires when the modern
  field is present with a falsy value. With \<open>X-Watson-Learning-Opt-Out\<close> set to
  \<open>false\<close> and the deprecated \<open>X-WDC-PL-OPT-OUT\<close> set to \<open>true\<close>, the modern field is
  overwritten.
\<close>

theorem modern_field_overwritten_counterexample:
  "has_key opt_out_options ''X-Watson-Learning-Opt-Out''
   \<and> get opt_out_options ''X-Watson-Learning-Opt-Out'' = JBool False
   \<and> fallback_opt_out opt_out_options
       = [(''X-Watson-Learning-Opt-Out'', JBool True), (''X-WDC-PL-OPT-OUT'', JBool True)]
   \<and> apply_deprecated opt_out_options
       = [(''X-Watson-Learning-Opt-Out'', JBool True), (''X-WDC-PL-OPT-OUT'', JBool True)]"
  by (simp add: opt_out_options_def has_key_def get_def apply_deprecated_def fallback_token_def
      fallback_content_type_def fallback_opt_out_def fallback_customization_id_def)


lemma keys_queryParams: "keys (queryParams ob) \<subseteq> set QUERY_PARAMS_ALLOWED"
proof -
  let ?t = "if has_key ob ''language_customization_id''
            then pick ob QUERY_PARAMS_ALLOWED else [(''model'', DEFAULT_MODEL)]"
  have "keys ?t \<subseteq> set QUERY_PARAMS_ALLOWED"
    using keys_pick [of ob QUERY_PARAMS_ALLOWED]
    by (auto simp: keys_def QUERY_PARAMS_ALLOWED_def)
  with keys_extend [of ?t "pick ob QUERY_PARAMS_ALLOWED"] keys_pick [of ob QUERY_PARAMS_ALLOWED]
  show ?thesis
    unfolding queryParams_def by blast
qed

lemma keys_openingMessage:
  "keys (openingMessage ob) \<subseteq> set OPENING_MESSAGE_PARAMS_ALLOWED \<union> {''action''}"
  using keys_pick [of ob OPENING_MESSAGE_PARAMS_ALLOWED]
  by (auto simp: openingMessage_def keys_update)

lemma action_openingMessage: "map_of (openingMessage ob) ''action'' = Some (JStr ''start'')"
  by (simp add: openingMessage_def update_conv')

text \<open>
  Claim C4. For every options object, the keys of the query parameters built by
  \<open>initialize\<close> are among the query allow-list, the keys of the opening message are
  among the control allow-list plus \<open>action\<close>, and the \<open>action\<close> of the opening
  message is \<open>start\<close> whatever \<open>action\<close> the caller supplied.
\<close>

theorem allow_lists_respected:
  "keys (buildQuery ob) \<subseteq> set QUERY_PARAMS_ALLOWED
   \<and> keys (buildHandshake ob) \<subseteq> set OPENING_MESSAGE_PARAMS_ALLOWED \<union> {''action''}
   \<and> map_of (buildHandshake ob) ''action'' = Some (JStr ''start'')"
  unfolding buildQuery_def buildHandshake_def
  using keys_queryParams [of "apply_deprecated ob"] keys_openingMessage [of "apply_deprecated ob"]
    action_openingMessage [of "apply_deprecated ob"]
  by blast

theorem allow_lists_respected_witness:
  "buildQuery mixed_options =
     [(''model'', JStr ''fr-FR_BroadbandModel''), (''watson-token'', JStr ''t0'')]
   \<and> buildHandshake mixed_options =
     [(''action'', JStr ''start''), (''interim_results'', JBool True)]
   \<and> keys (buildQuery mixed_options) \<subseteq> set QUERY_PARAMS_ALLOWED
   \<and> keys (buildHandshake mixed_options) \<subseteq> set OPENING_MESSAGE_PARAMS_ALLOWED \<union> {''action''}
   \<and> map_of (buildHandshake mixed_options) ''action'' = Some (JStr ''start'')"
proof -
  have d: "apply_deprecated mixed_options = mixed_options @ [(''watson-token'', JStr ''t0'')]"
    by (simp add: apply_deprecated_def fallback_token_def fallback_content_type_def
        fallback_opt_out_def fallback_customization_id_def mixed_options_def get_def)
  have q: "buildQuery mixed_options =
     [(''model'', JStr ''fr-FR_BroadbandModel''), (''watson-token'', JStr ''t0'')]"
    unfolding buildQuery_def d
    by (simp add: queryParams_def pick_def extend_obj_def QUERY_PARAMS_ALLOWED_def
        mixed_options_def has_key_def get_def DEFAULT_MODEL_def)
  have h: "buildHandshake mixed_options =
     [(''action'', JStr ''start''), (''interim_results'', JBool True)]"
    unfolding buildHandshake_def d
    by (simp add: openingMessage_def pick_def OPENING_MESSAGE_PARAMS_ALLOWED_def
        mixed_options_def has_key_def get_def)
  show ?thesis
    using allow_lists_respected [of mixed_options] q h by simp
qed

lemma map_of_queryParams_model:
  "map_of (queryParams ob) ''model'' =
     (if has_key ob ''language_customization_id'' then map_of ob ''model''
      else if get ob ''model'' \<noteq> JUndefined then Some (get ob ''model'')
      else Some DEFAULT_MODEL)"
  unfolding queryParams_def
  by (auto simp: map_of_extend [OF distinct_pick] map_of_pick QUERY_PARAMS_ALLOWED_def
      has_key_def get_def split: option.splits)

lemma map_of_buildQuery_model:
  "map_of (buildQuery ob) ''model'' =
     (if has_key ob ''language_customization_id'' \<or> truthy (get ob ''customization_id'')
      then map_of ob ''model''
      else if get ob ''model'' \<noteq> JUndefined then Some (get ob ''model'')
      else Some DEFAULT_MODEL)"
  unfolding buildQuery_def map_of_queryParams_model has_lang_apply_deprecated
  by (simp add: get_def map_of_apply_deprecated_model)

text \<open>
  Claim C8, as amended. For every options object, the query parameters carry the
  default model exactly when the options neither have the key
  \<open>language_customization_id\<close> nor a truthy \<open>customization_id\<close> (its deprecated
  name), and no model was configured (the first conjunct: the model of the query is the
  default one without being the caller's). With \<open>language_customization_id\<close> present or
  \<open>customization_id\<close> set, nothing is injected, the \<open>model\<close> entry being the caller's
  or missing like the caller's; and a configured model is forwarded unchanged. A model is
  configured when \<open>options.model\<close> is not \<open>undefined\<close>. No other option takes part:
  an \<open>acoustic_customization_id\<close> does not keep the default model away.
\<close>

theorem default_model_rule:
  "(map_of (buildQuery ob) ''model'' = Some DEFAULT_MODEL \<and> get ob ''model'' \<noteq> DEFAULT_MODEL
      \<longleftrightarrow> \<not> (has_key ob ''language_customization_id'' \<or> truthy (get ob ''customization_id''))
          \<and> get ob ''model'' = JUndefined)
   \<and> (has_key ob ''language_customization_id'' \<or> truthy (get ob ''customization_id'') \<longrightarrow>
        map_of (buildQuery ob) ''model'' = map_of ob ''model'')
   \<and> (get ob ''model'' \<noteq> JUndefined \<longrightarrow> get (buildQuery ob) ''model'' = get ob ''model'')"
  unfolding get_def [of "buildQuery ob"] map_of_buildQuery_model
  by (auto simp: get_def DEFAULT_MODEL_def split: option.splits)

theorem default_model_rule_witness:
  "\<not> has_key [] ''language_customization_id'' \<and> \<not> truthy (get [] ''customization_id'')
   \<and> get [] ''model'' = JUndefined
   \<and> map_of (buildQuery []) ''model'' = Some DEFAULT_MODEL
   \<and> truthy (get [(''customization_id'', JStr ''c1'')] ''customization_id'')
   \<and> map_of (buildQuery [(''customization_id'', JStr ''c1'')]) ''model'' = None
   \<and> has_key [(''language_customization_id'', JStr ''c2'')] ''language_customization_id''
   \<and> map_of (buildQuery [(''language_customization_id'', JStr ''c2'')]) ''model'' = None
   \<and> get [(''model'', JStr ''fr-FR_BroadbandModel'')] ''model'' \<noteq> JUndefined
   \<and> get (buildQuery [(''model'', JStr ''fr-FR_BroadbandModel'')]) ''model''
       = JStr ''fr-FR_BroadbandModel''"
proof -
  have a: "\<not> has_key [] ''language_customization_id''" "\<not> truthy (get [] ''customization_id'')"
    "get [] ''model'' = JUndefined"
    by (simp_all add: has_key_def get_def)
  have b: "truthy (get [(''customization_id'', JStr ''c1'')] ''customization_id'')"
    "has_key [(''language_customization_id'', JStr ''c2'')] ''language_customization_id''"
    by (simp_all add: has_key_def get_def)
  have c: "get [(''model'', JStr ''fr-FR_BroadbandModel'')] ''model''
             = JStr ''fr-FR_BroadbandModel''"
    by (simp add: get_def)
  show ?thesis
    using default_model_rule [of "[]"] default_model_rule [of "[(''customization_id'', JStr ''c1'')]"]
      default_model_rule [of "[(''language_customization_id'', JStr ''c2'')]"]
      default_model_rule [of "[(''model'', JStr ''fr-FR_BroadbandModel'')]"] a b c
    by (simp add: DEFAULT_MODEL_def)
qed

text \<open>
  Claim C8 as stated fails: with \<open>acoustic_customization_id\<close>, one of the customization
  ids of the query allow-list, as the only option, the default model is injected.
\<close>

theorem acoustic_customization_counterexample:
  "has_key acoustic_options ''acoustic_customization_id''
   \<and> \<not> has_key acoustic_options ''model''
   \<and> buildQuery acoustic_options
       = [(''model'', JStr ''en-US_BroadbandModel''), (''acoustic_customization_id'', JStr ''a1'')]"
  by (simp add: acoustic_options_def has_key_def buildQuery_def apply_deprecated_def
      fallback_token_def fallback_content_type_def fallback_opt_out_def
      fallback_customization_id_def get_def queryParams_def pick_def extend_obj_def
      QUERY_PARAMS_ALLOWED_def DEFAULT_MODEL_def)

section \<open>Output shaping\<close>

lemma result_push_interim: "is_interim r \<Longrightarrow> result_push r = Some []"
  by (auto simp: is_interim_def result_push_def split: option.splits)

lemma forEach_drops_interim:
  "forEach_result (filter (\<lambda>r. \<not> is_interim r) rs) = forEach_result rs"
  by (induction rs) (auto simp: result_push_interim split: option.splits)

lemma result_push_output:
  "result_push r = Some ps \<Longrightarrow> a \<in> set ps \<Longrightarrow>
   is_final r \<and> (\<exists>t. first_transcript r = Some t \<and> a = push t)"
  by (auto simp: result_push_def is_final_def first_transcript_def
      split: option.splits if_splits)

lemma forEach_outputs_final:
  "a \<in> set (outputs (forEach_result rs)) \<Longrightarrow>
   \<exists>r\<in>set rs. is_final r \<and> (\<exists>t. first_transcript r = Some t \<and> a = push t)"
proof (induction rs)
  case Nil
  then show ?case by (simp add: outputs_def)
next
  case (Cons r rs)
  show ?case
  proof (cases "result_push r")
    case None
    with Cons.prems show ?thesis by (simp add: outputs_def is_output_def)
  next
    case (Some ps)
    with Cons.prems have "a \<in> set ps \<or> a \<in> set (outputs (forEach_result rs))"
      by (auto simp: outputs_def)
    then show ?thesis
    proof
      assume "a \<in> set ps"
      with Some result_push_output [of r ps a] show ?thesis by auto
    next
      assume "a \<in> set (outputs (forEach_result rs))"
      with Cons.IH show ?thesis by auto
    qed
  qed
qed

lemma getprop_Some: "v \<noteq> JNull \<Longrightarrow> v \<noteq> JUndefined \<Longrightarrow> \<exists>w. getprop v k = Some w"
  by (cases v) simp_all

lemma result_push_readable:
  assumes "readable r"
  shows "result_push r = Some (if emits_transcript r then [push (transcript_of r)] else [])"
proof (cases "emits_transcript r")
  case True
  with assms obtain x where x: "first_alternative r = Some x" "x \<noteq> JNull" "x \<noteq> JUndefined"
    by (auto simp: readable_def split: option.splits)
  from getprop_Some [OF x(2) x(3)] obtain t where t: "getprop x ''transcript'' = Some t"
    by blast
  from True x(1) t show ?thesis
    by (auto simp: result_push_def emits_transcript_def is_final_def first_alternative_def
        transcript_of_def first_transcript_def split: option.splits)
next
  case False
  with assms obtain f where f: "getprop r ''final'' = Some f"
    by (auto simp: readable_def)
  then obtain a where a: "getprop r ''alternatives'' = Some a"
    by (cases r) simp_all
  from False f a show ?thesis
    by (simp add: result_push_def emits_transcript_def is_final_def)
qed

lemma result_push_unreadable: "\<not> readable r \<Longrightarrow> result_push r = None"
  by (auto simp: readable_def result_push_def emits_transcript_def is_final_def
      first_alternative_def split: option.splits if_splits)

lemma forEach_takeWhile:
  "forEach_result rs =
     map (\<lambda>r. push (transcript_of r)) (filter emits_transcript (takeWhile readable rs))
       @ (if list_all readable rs then [] else [Throw ''TypeError''])"
  by (induction rs) (auto simp: result_push_readable result_push_unreadable)

lemma onmessage_object_frame:
  "onmessage (JSONFrame (JObj frame)) s =
     (let s1 = act [Emit (EvMessage (JSONFrame (JObj frame)))] s in
      if truthy (get frame ''error'') then act [Emit (EvError ''Error'' (get frame ''error''))] s1
      else if get frame ''state'' = JStr ''listening'' then
        (if listening s then socket_close (s1\<lparr>listening := False\<rparr>)
         else act [Emit EvListening] (s1\<lparr>listening := True\<rparr>))
      else if truthy (get (options s) ''readableObjectMode'') then act [Push (JObj frame)] s1
      else (case get frame ''results'' of
              JArr rs \<Rightarrow> act (forEach_result rs) s1
            | _ \<Rightarrow> s1))"
  by (simp add: onmessage_def Let_def emitError_def push_def act_def split: jsval.splits)

lemma onmessage_result_frame:
  assumes "getprop data ''error'' = Some e" "\<not> truthy e"
    "getprop data ''state'' \<noteq> Some (JStr ''listening'')"
  shows "onmessage (JSONFrame data) s =
     (if truthy (get (options s) ''readableObjectMode'')
      then act [Emit (EvMessage (JSONFrame data)), push data] s
      else (case getprop data ''results'' of
              Some (JArr rs) \<Rightarrow> act (Emit (EvMessage (JSONFrame data)) # forEach_result rs) s
            | _ \<Rightarrow> act [Emit (EvMessage (JSONFrame data))] s))"
  using assms
  by (simp add: onmessage_def act_def Let_def split: option.splits jsval.splits)

lemma getprop_not_null: "getprop data k = Some v \<Longrightarrow> data \<noteq> JNull"
  by (cases data) auto

lemma onmessage_listening_frame:
  assumes "getprop data ''error'' = Some e" "\<not> truthy e"
    "getprop data ''state'' = Some (JStr ''listening'')"
  shows "outputs (actions (onmessage (JSONFrame data) s)) = outputs (actions s)"
  using assms
  by (simp add: onmessage_def act_def Let_def socket_close_def outputs_def is_output_def)

section \<open>The first write\<close>

lemma get_cong: "map_of x k = map_of y k \<Longrightarrow> get x k = get y k"
  by (simp add: get_def)

lemma get_pick: "k \<in> set ks \<Longrightarrow> get (pick ob ks) k = get ob k"
  by (simp add: get_def map_of_pick has_key_def split: option.splits)

lemma get_openingMessage_content_type:
  "get (openingMessage ob) ''content-type'' = get ob ''content-type''"
  by (simp add: openingMessage_def get_update get_pick OPENING_MESSAGE_PARAMS_ALLOWED_def)

lemma get_apply_deprecated_content_type:
  assumes "\<not> truthy (get ob ''content_type'')"
  shows "get (apply_deprecated ob) ''content-type'' = get ob ''content-type''"
proof -
  have "get (fallback_token ob) ''content_type'' = get ob ''content_type''"
    by (rule get_cong) (simp add: map_of_fallback_token)
  with assms have "fallback_content_type (fallback_token ob) = fallback_token ob"
    by (simp add: fallback_content_type_def)
  then have "map_of (apply_deprecated ob) ''content-type'' = map_of ob ''content-type''"
    by (simp add: apply_deprecated_def map_of_fallback_customization_id
        map_of_fallback_opt_out map_of_fallback_token)
  then show ?thesis by (rule get_cong)
qed

lemma initialize_fields:
  "initialized (initialize s)"
  "socket (initialize s) = Some \<lparr>readyState = CONNECTING, bufferedAmount = 0\<rparr>"
  "finished (initialize s) = finished s"
  "open_once (initialize s) = open_once s"
  "options (initialize s) = apply_deprecated (options s)"
  "handshake (initialize s) = openingMessage (apply_deprecated (options s))"
  "outputs (actions (initialize s)) = outputs (actions s)"
  "NewSocket (queryParams (apply_deprecated (options s)))
     (get (apply_deprecated (options s)) ''headers'') \<in> set (actions (initialize s))"
  by (simp_all add: initialize_def Let_def outputs_def is_output_def)

lemma socket_None_step:
  "socket s = None \<Longrightarrow> \<not> is_write e \<Longrightarrow> socket (step fromHeader s e) = None"
  by (cases e)
     (simp_all add: is_write_def finish_def stop_def act_def is_open_def Let_def afterSend_def)

lemma socket_None_run:
  "socket s = None \<Longrightarrow> \<forall>e\<in>set evs. \<not> is_write e \<Longrightarrow> socket (run fromHeader evs s) = None"
  unfolding run_def
  by (induction evs arbitrary: s) (simp_all add: socket_None_step)

lemma write_chunk_no_error:
  "\<not> truthy err \<Longrightarrow>
   write_chunk fromHeader chunk (Reply err token) s =
     write_callback fromHeader chunk JNull
       (if truthy (get (options s) ''token_manager'')
        then s\<lparr>options := AList.update ''headers''
                 (JObj (extend_obj (as_obj (get (options s) ''headers''))
                          [(''authorization'', JStr (''Bearer '' @ token))])) (options s)\<rparr>
        else s)"
  by (simp add: write_chunk_def setAuthorizationHeaderToken_def Let_def)

lemma write_callback_unrecognized:
  assumes "\<not> initialized s" "\<not> finished s"
    "\<not> truthy (get (options s) ''content-type'')" "\<not> truthy (get (options s) ''content_type'')"
    "\<not> truthy (fromHeader chunk)"
  shows "write_callback fromHeader chunk JNull s =
     act [Emit (EvError ERROR_UNRECOGNIZED_FORMAT UNRECOGNIZED_MESSAGE), PushNull] s"
  using assms by (simp add: write_callback_def UNRECOGNIZED_MESSAGE_def)

lemma write_callback_recognized:
  assumes "\<not> initialized s" "\<not> finished s"
    "\<not> truthy (get (options s) ''content-type'')" "\<not> truthy (get (options s) ''content_type'')"
    "truthy (fromHeader chunk)"
  shows "write_callback fromHeader chunk JNull s =
     (initialize (s\<lparr>options := AList.update ''content-type'' (fromHeader chunk) (options s)\<rparr>))
       \<lparr>open_once := open_once s @ [SendChunk chunk]\<rparr>"
  using assms by (simp add: write_callback_def connect_then_send_def Let_def initialize_fields)

section \<open>The handlers, one by one\<close>

subsection \<open>Sending and waiting\<close>

lemma binary_sends_append: "binary_sends (xs @ ys) = binary_sends xs @ binary_sends ys"
  by (induction xs rule: binary_sends.induct) simp_all

lemma ticks_append: "ticks (xs @ ys) = ticks xs + ticks ys"
  by (simp add: ticks_def)

lemma is_open_act [simp]: "is_open (act as s) = is_open s"
  by (simp add: is_open_def act_def)

lemma act_fields [simp]:
  "socket (act as s) = socket s" "options (act as s) = options s"
  "initialized (act as s) = initialized s" "finished (act as s) = finished s"
  "listening (act as s) = listening s" "open_once (act as s) = open_once s"
  "highWaterMark (act as s) = highWaterMark s" "timers (act as s) = timers s"
  "handshake (act as s) = handshake s" "actions (act as s) = actions s @ as"
  by (simp_all add: act_def)

lemma act_act: "act bs (act as s) = act (as @ bs) s"
  by (simp add: act_def)

lemma sendData_open:
  "is_open s \<Longrightarrow> sendData c s = Inr (act [Emit (EvSendData c), SocketSendBinary c] s)"
  by (simp add: sendData_def socket_send_def act_act)

lemma sendData_closed:
  "\<not> is_open s \<Longrightarrow>
   sendData c s = Inl (act [Emit (EvSendData c), Throw ''cannot call send() while not connected''] s)"
  by (simp add: sendData_def socket_send_def act_act)

lemma sendJSON_open:
  "is_open s \<Longrightarrow> sendJSON m s = Inr (act [Emit (EvSendJson m), SocketSendText m] s)"
  by (simp add: sendJSON_def socket_send_def act_act)

lemma afterSend_fields [simp]:
  "socket (afterSend s) = socket s" "options (afterSend s) = options s"
  "initialized (afterSend s) = initialized s" "finished (afterSend s) = finished s"
  "listening (afterSend s) = listening s" "open_once (afterSend s) = open_once s"
  "highWaterMark (afterSend s) = highWaterMark s" "handshake (afterSend s) = handshake s"
  by (simp_all add: afterSend_def split: option.splits)

lemma is_open_afterSend [simp]: "is_open (afterSend s) = is_open s"
  by (simp add: is_open_def)

lemma drained_cong:
  "socket s' = socket s \<Longrightarrow> highWaterMark s' = highWaterMark s \<Longrightarrow> drained s' = drained s"
  by (cases "socket s") (simp_all add: drained_def watermark_def)

lemma with_header_fields [simp]:
  "socket (with_header t s) = socket s"
  "initialized (with_header t s) = initialized s" "finished (with_header t s) = finished s"
  "listening (with_header t s) = listening s" "open_once (with_header t s) = open_once s"
  "highWaterMark (with_header t s) = highWaterMark s" "timers (with_header t s) = timers s"
  "handshake (with_header t s) = handshake s" "actions (with_header t s) = actions s"
  "is_open (with_header t s) = is_open s"
  by (simp_all add: with_header_def is_open_def)

lemma write_chunk_unfold:
  "write_chunk fromHeader chunk (Reply err token) s =
     (if truthy (get (options s) ''token_manager'')
      then write_callback fromHeader chunk JNull
             (with_header token
                (if truthy err then act [Emit (EvErrorRaised err), PushNull] s else s))
      else write_callback fromHeader chunk JNull s)"
  by (simp add: write_chunk_def setAuthorizationHeaderToken_def Let_def with_header_def
      write_callback_def [of fromHeader chunk err])

lemma write_callback_unfold:
  "write_callback fromHeader chunk JNull s =
     (if finished s then s
      else if initialized s then
        (if is_open s
         then afterSend (act [Emit (EvSendData chunk), SocketSendBinary chunk] s)
         else act [Emit (EvSendData chunk), Throw ''cannot call send() while not connected''] s)
      else if \<not> truthy (get (options s) ''content-type'')
            \<and> \<not> truthy (get (options s) ''content_type'')
            \<and> \<not> truthy (fromHeader chunk)
      then act [Emit (EvError ERROR_UNRECOGNIZED_FORMAT UNRECOGNIZED_MESSAGE), PushNull] s
      else (initialize
             (if \<not> truthy (get (options s) ''content-type'')
                 \<and> \<not> truthy (get (options s) ''content_type'')
              then s\<lparr>options := AList.update ''content-type'' (fromHeader chunk) (options s)\<rparr>
              else s))
           \<lparr>open_once := open_once s @ [SendChunk chunk]\<rparr>)"
  by (simp add: write_callback_def connect_then_send_def Let_def sendData_open sendData_closed
      UNRECOGNIZED_MESSAGE_def initialize_fields)

lemma finish_unfold:
  "finish s =
     (if finished s then s
      else if is_open s
      then act [Emit (EvSendJson closingMessage), SocketSendText closingMessage]
             (s\<lparr>finished := True\<rparr>)
      else s\<lparr>finished := True, open_once := open_once s @ [SendStop]\<rparr>)"
  by (simp add: finish_def Let_def sendJSON_open is_open_def)

lemma actions_afterSend:
  "actions (afterSend s) = actions s @
     (case socket s of
        None \<Rightarrow> [Throw ''TypeError'']
      | Some sk \<Rightarrow> if bufferedAmount sk \<le> watermark s then [NextTick] else [SetTimeout 10])"
  by (simp add: afterSend_def split: option.splits)

lemma stop_frames_append: "stop_frames (xs @ ys) = stop_frames xs + stop_frames ys"
  by (simp add: stop_frames_def)

lemma stop_frames_simps [simp]:
  "stop_frames [] = 0"
  "stop_frames (Emit ev # as) = stop_frames as"
  "stop_frames (SocketSendBinary c # as) = stop_frames as"
  "stop_frames (NextTick # as) = stop_frames as"
  "stop_frames (SetTimeout n # as) = stop_frames as"
  "stop_frames (Throw msg # as) = stop_frames as"
  "stop_frames (PushNull # as) = stop_frames as"
  "stop_frames (Push v # as) = stop_frames as"
  "stop_frames (ConsoleWarn # as) = stop_frames as"
  "stop_frames (NewSocket q h # as) = stop_frames as"
  "stop_frames (SocketClose # as) = stop_frames as"
  "stop_frames (SocketSendText m # as) =
     (if get m ''action'' = JStr ''stop'' then Suc (stop_frames as) else stop_frames as)"
  by (simp_all add: stop_frames_def is_stop_def)

lemma ticks_simps [simp]:
  "ticks [] = 0"
  "ticks (Emit ev # as) = ticks as"
  "ticks (SocketSendBinary c # as) = ticks as"
  "ticks (NextTick # as) = Suc (ticks as)"
  "ticks (SetTimeout n # as) = ticks as"
  "ticks (Throw msg # as) = ticks as"
  "ticks (PushNull # as) = ticks as"
  "ticks (Push v # as) = ticks as"
  "ticks (ConsoleWarn # as) = ticks as"
  "ticks (NewSocket q h # as) = ticks as"
  "ticks (SocketClose # as) = ticks as"
  "ticks (SocketSendText m # as) = ticks as"
  by (simp_all add: ticks_def)

lemma closing_is_stop [simp]: "get closingMessage ''action'' = JStr ''stop''"
  by (simp add: closingMessage_def get_def)

lemma afterSend_measures:
  "binary_sends (actions (afterSend s)) = binary_sends (actions s)"
  "stop_frames (actions (afterSend s)) = stop_frames (actions s)"
  "ticks (actions s) < ticks (actions (afterSend s)) \<Longrightarrow> drained s"
  "ticks (actions s) \<le> ticks (actions (afterSend s))"
  by (auto simp: afterSend_def binary_sends_append stop_frames_append ticks_append drained_def
      split: option.splits if_splits)

lemma run_listener_open:
  "is_open s \<Longrightarrow>
   run_listener l s =
     Inr (case l of
            SendChunk c \<Rightarrow> afterSend (act [Emit (EvSendData c), SocketSendBinary c] s)
          | SendStop \<Rightarrow> act [Emit (EvSendJson closingMessage), SocketSendText closingMessage] s)"
  by (cases l) (simp_all add: sendData_open sendJSON_open)

lemma emit_open_effect:
  "is_open s \<Longrightarrow> open_once s = ls \<Longrightarrow>
   open_once (emit_open ls s) = []
   \<and> socket (emit_open ls s) = socket s
   \<and> highWaterMark (emit_open ls s) = highWaterMark s
   \<and> finished (emit_open ls s) = finished s
   \<and> initialized (emit_open ls s) = initialized s
   \<and> listening (emit_open ls s) = listening s
   \<and> handshake (emit_open ls s) = handshake s
   \<and> options (emit_open ls s) = options s
   \<and> prefix (actions s) (actions (emit_open ls s))
   \<and> stop_frames (actions (emit_open ls s))
       = stop_frames (actions s) + length (filter (\<lambda>l. l = SendStop) ls)
   \<and> binary_sends (actions (emit_open ls s)) = binary_sends (actions s) @ pending_chunks ls
   \<and> (ticks (actions s) < ticks (actions (emit_open ls s)) \<longrightarrow> drained s)"
proof (induction ls arbitrary: s)
  case Nil
  then show ?case by simp
next
  case (Cons l ls)
  define s0 where "s0 = s\<lparr>open_once := remove1 l (open_once s)\<rparr>"
  define t where "t = (case l of
            SendChunk c \<Rightarrow> afterSend (act [Emit (EvSendData c), SocketSendBinary c] s0)
          | SendStop \<Rightarrow> act [Emit (EvSendJson closingMessage), SocketSendText closingMessage] s0)"
  have o0: "is_open s0" "open_once s0 = ls"
    using Cons.prems by (simp_all add: s0_def is_open_def)
  have r: "run_listener l s0 = Inr t"
    unfolding t_def using o0(1) by (rule run_listener_open)
  have e: "emit_open (l # ls) s = emit_open ls t"
    using r by (simp add: s0_def)
  have ot: "is_open t" "open_once t = ls"
    using o0 by (cases l; simp add: t_def)+
  have ft: "socket t = socket s" "highWaterMark t = highWaterMark s" "finished t = finished s"
    "initialized t = initialized s" "listening t = listening s" "handshake t = handshake s"
    "options t = options s"
    by (cases l; simp add: t_def s0_def)+
  have gt: "prefix (actions s) (actions t)"
    by (cases l) (simp_all add: t_def s0_def actions_afterSend)
  have st: "stop_frames (actions t)
       = stop_frames (actions s) + (if l = SendStop then 1 else 0)"
    by (cases l) (simp_all add: t_def s0_def afterSend_measures stop_frames_append)
  have bt: "binary_sends (actions t) = binary_sends (actions s) @ pending_chunks [l]"
    by (cases l) (simp_all add: t_def s0_def afterSend_measures binary_sends_append)
  have pc: "pending_chunks (l # ls) = pending_chunks [l] @ pending_chunks ls"
    by (cases l) simp_all
  have tt: "ticks (actions s) < ticks (actions t) \<Longrightarrow> drained s"
  proof (cases l)
    case (SendChunk c)
    assume "ticks (actions s) < ticks (actions t)"
    then have "ticks (actions (act [Emit (EvSendData c), SocketSendBinary c] s0))
        < ticks (actions (afterSend (act [Emit (EvSendData c), SocketSendBinary c] s0)))"
      by (simp add: t_def SendChunk s0_def ticks_append)
    then have "drained (act [Emit (EvSendData c), SocketSendBinary c] s0)"
      by (rule afterSend_measures(3))
    moreover have "drained (act [Emit (EvSendData c), SocketSendBinary c] s0) = drained s"
      by (rule drained_cong) (simp_all add: s0_def)
    ultimately show ?thesis by simp
  next
    case SendStop
    assume "ticks (actions s) < ticks (actions t)"
    then show ?thesis
      by (simp add: t_def SendStop s0_def ticks_append)
  qed
  have dt: "drained t = drained s"
    using ft(1) ft(2) by (rule drained_cong)
  note IH = Cons.IH [OF ot]
  have g: "prefix (actions s) (actions (emit_open ls t))"
    using gt IH by (blast intro: prefix_order.trans)
  have k: "ticks (actions s) < ticks (actions (emit_open ls t)) \<longrightarrow> drained s"
  proof
    assume a: "ticks (actions s) < ticks (actions (emit_open ls t))"
    show "drained s"
    proof (cases "ticks (actions t) < ticks (actions (emit_open ls t))")
      case True
      with IH dt show ?thesis by simp
    next
      case False
      with a have "ticks (actions s) < ticks (actions t)" by simp
      then show ?thesis by (rule tt)
    qed
  qed
  show ?case
    unfolding e pc using IH ft g st k bt by simp
qed

subsection \<open>The actions only grow\<close>

lemma actions_initialize:
  "actions (initialize s) = actions s @
     (if truthy (get (options s) ''token'') \<and> \<not> truthy (get (options s) ''watson-token'')
      then [ConsoleWarn] else [])
     @ [NewSocket (queryParams (apply_deprecated (options s)))
          (get (apply_deprecated (options s)) ''headers'')]"
  by (simp add: initialize_def Let_def)

lemma prefix_write_callback:
  "prefix (actions s) (actions (write_callback fromHeader chunk JNull s))"
  by (simp add: write_callback_unfold actions_afterSend actions_initialize)

lemma prefix_write_chunk: "prefix (actions s) (actions (write_chunk fromHeader chunk reply s))"
proof (cases reply)
  case (Reply err token)
  let ?s1 = "with_header token
                (if truthy err then act [Emit (EvErrorRaised err), PushNull] s else s)"
  have "prefix (actions s) (actions ?s1)"
    by simp
  moreover have "prefix (actions ?s1) (actions (write_callback fromHeader chunk JNull ?s1))"
    by (rule prefix_write_callback)
  ultimately have "prefix (actions s) (actions (write_callback fromHeader chunk JNull ?s1))"
    by (rule prefix_order.trans)
  then show ?thesis
    using prefix_write_callback [of s fromHeader chunk]
    by (simp add: Reply write_chunk_unfold)
qed

lemma prefix_finish: "prefix (actions s) (actions (finish s))"
  by (simp add: finish_unfold)

lemma prefix_stop: "prefix (actions s) (actions (stop s))"
  unfolding stop_def
  using prefix_finish [of "act [Emit EvStop] s"]
  by (auto intro: prefix_order.trans [of _ "actions s @ [Emit EvStop]"])

lemma prefix_onmessage: "prefix (actions s) (actions (onmessage fr s))"
  by (simp add: onmessage_def emitError_def socket_close_def Let_def act_def
      split: frame.splits option.splits jsval.splits)

lemma is_open_set_ready [simp]:
  "is_open (set_ready r s) = (socket s \<noteq> None \<and> r = OPEN)"
  by (cases "socket s") (simp_all add: is_open_def set_ready_def)

lemma set_ready_fields [simp]:
  "options (set_ready r s) = options s"
  "initialized (set_ready r s) = initialized s" "finished (set_ready r s) = finished s"
  "listening (set_ready r s) = listening s" "open_once (set_ready r s) = open_once s"
  "highWaterMark (set_ready r s) = highWaterMark s" "timers (set_ready r s) = timers s"
  "handshake (set_ready r s) = handshake s" "actions (set_ready r s) = actions s"
  by (simp_all add: set_ready_def)

lemma onopen_open:
  "is_open s \<Longrightarrow>
   onopen s = emit_open (open_once s)
                (act [Emit (EvSendJson (handshake s)), SocketSendText (handshake s), Emit EvOpen] s)"
  by (simp add: onopen_def sendJSON_open act_act)

lemma step_SocketOpen:
  "step fromHeader s SocketOpen =
     (if connecting s
      then emit_open (open_once s)
             (act [Emit (EvSendJson (handshake s)), SocketSendText (handshake s), Emit EvOpen]
                (set_ready OPEN s))
      else s)"
  by (cases "socket s") (simp_all add: connecting_def onopen_open)

lemma connecting_open_after: "connecting s \<Longrightarrow> is_open (set_ready OPEN s)"
  by (cases "socket s") (simp_all add: connecting_def)

lemma prefix_step: "prefix (actions s) (actions (step fromHeader s e))"
proof (cases e)
  case (Write c reply)
  then show ?thesis by (simp add: prefix_write_chunk)
next
  case SocketOpen
  show ?thesis
  proof (cases "connecting s")
    case True
    let ?t = "act [Emit (EvSendJson (handshake s)), SocketSendText (handshake s), Emit EvOpen]
                (set_ready OPEN s)"
    have "prefix (actions ?t) (actions (emit_open (open_once s) ?t))"
      using emit_open_effect [of ?t "open_once s"] connecting_open_after [OF True] by simp
    then have "prefix (actions s) (actions (emit_open (open_once s) ?t))"
      by (auto intro: prefix_order.trans [of _ "actions ?t"])
    with True show ?thesis
      by (simp add: SocketOpen step_SocketOpen del: step.simps)
  next
    case False
    then show ?thesis
      by (simp add: SocketOpen step_SocketOpen del: step.simps)
  qed
next
  case (SocketMessage fr)
  then show ?thesis by (simp add: prefix_onmessage split: option.splits)
next
  case Timeout
  then show ?thesis
    by (simp add: actions_afterSend)
qed (simp_all add: prefix_finish prefix_stop onerror_def onclose_def split: option.splits)

subsection \<open>At most one stop message\<close>

lemma push_measures [simp]:
  "stop_frames (push v # as) = stop_frames as"
  "ticks (push v # as) = ticks as"
  "binary_sends (push v # as) = binary_sends as"
  by (simp_all add: push_def)

lemma result_push_measures:
  "result_push r = Some ps \<Longrightarrow> stop_frames ps = 0 \<and> ticks ps = 0 \<and> binary_sends ps = []"
  by (auto simp: result_push_def split: option.splits if_splits)

lemma forEach_measures [simp]:
  "stop_frames (forEach_result rs) = 0"
  "ticks (forEach_result rs) = 0"
  "binary_sends (forEach_result rs) = []"
  by (induction rs)
     (auto simp: stop_frames_append ticks_append binary_sends_append
        dest: result_push_measures split: option.splits)

lemma onmessage_effect:
  "stop_frames (actions (onmessage fr s)) = stop_frames (actions s)
   \<and> ticks (actions (onmessage fr s)) = ticks (actions s)
   \<and> binary_sends (actions (onmessage fr s)) = binary_sends (actions s)
   \<and> finished (onmessage fr s) = finished s
   \<and> initialized (onmessage fr s) = initialized s
   \<and> open_once (onmessage fr s) = open_once s
   \<and> handshake (onmessage fr s) = handshake s
   \<and> options (onmessage fr s) = options s
   \<and> highWaterMark (onmessage fr s) = highWaterMark s
   \<and> (is_open (onmessage fr s) \<longrightarrow> is_open s)"
  by (simp add: onmessage_def emitError_def socket_close_def Let_def is_open_def
      stop_frames_append ticks_append binary_sends_append
      split: frame.splits option.splits jsval.splits)

lemma get_openingMessage_action [simp]: "get (openingMessage ob) ''action'' = JStr ''start''"
  by (simp add: openingMessage_def get_update)

lemma pending_stops_simps [simp]:
  "pending_stops (act as s) = pending_stops s"
  "pending_stops (afterSend s) = pending_stops s"
  "pending_stops (with_header tk s) = pending_stops s"
  "pending_stops (set_ready r s) = pending_stops s"
  by (simp_all add: pending_stops_def)

lemma write_callback_effect:
  "stops_ok s \<Longrightarrow> stops_ok (write_callback fromHeader chunk JNull s)"
  by (simp add: write_callback_unfold stops_ok_def stop_frames_append actions_afterSend
      actions_initialize initialize_fields pending_stops_def split: option.splits)

lemma stops_ok_write_chunk:
  assumes "stops_ok s"
  shows "stops_ok (write_chunk fromHeader chunk reply s)"
proof (cases reply)
  case (Reply err token)
  let ?s1 = "with_header token
                (if truthy err then act [Emit (EvErrorRaised err), PushNull] s else s)"
  have "stops_ok ?s1"
    using assms by (simp add: stops_ok_def stop_frames_append)
  then have "stops_ok (write_callback fromHeader chunk JNull ?s1)"
    by (rule write_callback_effect)
  then show ?thesis
    using write_callback_effect [OF assms, of fromHeader chunk]
    by (simp add: Reply write_chunk_unfold)
qed

lemma stops_ok_finish: "stops_ok s \<Longrightarrow> stops_ok (finish s)"
  by (simp add: finish_unfold stops_ok_def stop_frames_append pending_stops_def)

lemma stops_ok_SocketOpen:
  assumes "stops_ok s"
  shows "stops_ok (step fromHeader s SocketOpen)"
proof (cases "connecting s")
  case True
  let ?t = "act [Emit (EvSendJson (handshake s)), SocketSendText (handshake s), Emit EvOpen]
                (set_ready OPEN s)"
  note E = emit_open_effect [of ?t "open_once s"]
  have o: "is_open ?t" "open_once ?t = open_once s"
    using connecting_open_after [OF True] by simp_all
  have "stop_frames (actions ?t) = stop_frames (actions s)"
    using assms by (simp add: stops_ok_def stop_frames_append)
  with E [OF o] assms have "stops_ok (emit_open (open_once s) ?t)"
    by (simp add: stops_ok_def pending_stops_def)
  with True show ?thesis
    by (simp add: step_SocketOpen del: step.simps)
next
  case False
  with assms show ?thesis
    by (simp add: step_SocketOpen del: step.simps)
qed

lemma stops_ok_step: "stops_ok s \<Longrightarrow> stops_ok (step fromHeader s e)"
proof (cases e)
  case (Write c reply)
  assume "stops_ok s"
  then show ?thesis by (simp add: Write stops_ok_write_chunk)
next
  case SocketOpen
  assume "stops_ok s"
  then show ?thesis unfolding SocketOpen by (rule stops_ok_SocketOpen)
next
  case (SocketMessage fr)
  assume "stops_ok s"
  then show ?thesis
    using onmessage_effect [of fr s]
    by (simp add: SocketMessage stops_ok_def pending_stops_def split: option.splits)
next
  case Stop
  assume "stops_ok s"
  then have "stops_ok (act [Emit EvStop] s)"
    by (simp add: stops_ok_def stop_frames_append)
  then show ?thesis
    by (simp add: Stop stop_def stops_ok_finish)
next
  case Finish
  assume "stops_ok s"
  then show ?thesis by (simp add: Finish stops_ok_finish)
next
  case StreamFinish
  assume "stops_ok s"
  then show ?thesis by (simp add: StreamFinish stops_ok_finish)
qed (simp_all add: onerror_def onclose_def stops_ok_def stop_frames_append pending_stops_def
       actions_afterSend split: option.splits)

lemma stops_ok_run: "stops_ok s \<Longrightarrow> stops_ok (run fromHeader evs s)"
  unfolding run_def
  by (induction evs arbitrary: s) (simp_all add: stops_ok_step)

lemma stops_ok_new: "stops_ok (RecognizeStream opts hwm)"
  by (simp add: stops_ok_def RecognizeStream_def pending_stops_def get_def)

lemma at_most_one_stop:
  "stop_frames (actions (run fromHeader evs (RecognizeStream opts hwm))) \<le> 1
   \<and> stop_frames (actions (run fromHeader evs (RecognizeStream opts hwm)))
        + pending_stops (run fromHeader evs (RecognizeStream opts hwm))
       = (if finished (run fromHeader evs (RecognizeStream opts hwm)) then 1 else 0)"
  using stops_ok_run [OF stops_ok_new, of fromHeader evs opts hwm]
  by (cases "finished (run fromHeader evs (RecognizeStream opts hwm))")
     (simp_all add: stops_ok_def)

subsection \<open>No chunk before the socket opens\<close>

lemma is_open_initialize [simp]: "\<not> is_open (initialize s)"
  by (simp add: is_open_def initialize_fields)

lemma binary_sends_initialize [simp]:
  "binary_sends (actions (initialize s)) = binary_sends (actions s)"
  by (simp add: actions_initialize binary_sends_append)

lemma binary_sends_afterSend [simp]:
  "binary_sends (actions (afterSend s)) = binary_sends (actions s)"
  by (rule afterSend_measures)

lemma closed_write_callback:
  "\<not> is_open s \<Longrightarrow>
   \<not> is_open (write_callback fromHeader chunk JNull s)
   \<and> binary_sends (actions (write_callback fromHeader chunk JNull s)) = binary_sends (actions s)"
  by (simp add: write_callback_unfold binary_sends_append is_open_def initialize_fields)

lemma closed_write_chunk:
  assumes "\<not> is_open s"
  shows "\<not> is_open (write_chunk fromHeader chunk reply s)
   \<and> binary_sends (actions (write_chunk fromHeader chunk reply s)) = binary_sends (actions s)"
proof (cases reply)
  case (Reply err token)
  let ?s1 = "with_header token
                (if truthy err then act [Emit (EvErrorRaised err), PushNull] s else s)"
  have "\<not> is_open ?s1" "binary_sends (actions ?s1) = binary_sends (actions s)"
    using assms by (simp_all add: binary_sends_append)
  with closed_write_callback [of ?s1 fromHeader chunk] closed_write_callback [OF assms, of fromHeader chunk]
  show ?thesis
    by (simp add: Reply write_chunk_unfold)
qed

lemma closed_finish:
  "\<not> is_open s \<Longrightarrow>
   \<not> is_open (finish s) \<and> binary_sends (actions (finish s)) = binary_sends (actions s)"
  by (simp add: finish_unfold is_open_def)

lemma closed_step:
  assumes "\<not> is_open s" and "e = SocketOpen \<longrightarrow> \<not> connecting s"
  shows "\<not> is_open (step fromHeader s e)
     \<and> binary_sends (actions (step fromHeader s e)) = binary_sends (actions s)"
proof (cases e)
  case (Write c reply)
  with assms closed_write_chunk show ?thesis by simp
next
  case Finish
  with assms closed_finish show ?thesis by simp
next
  case Stop
  with assms closed_finish [of "act [Emit EvStop] s"] show ?thesis
    by (simp add: stop_def binary_sends_append)
next
  case StreamFinish
  with assms closed_finish show ?thesis by simp
next
  case SocketOpen
  with assms show ?thesis by (simp add: step_SocketOpen del: step.simps)
next
  case (SocketMessage fr)
  with assms onmessage_effect [of fr s] show ?thesis
    by (auto split: option.splits)
next
  case SocketError
  with assms show ?thesis
    by (simp add: onerror_def binary_sends_append is_open_def set_ready_def split: option.splits)
next
  case (SocketClosed code reason)
  with assms show ?thesis
    by (simp add: onclose_def binary_sends_append is_open_def set_ready_def split: option.splits)
next
  case (Buffered n)
  with assms show ?thesis
    by (auto simp: is_open_def split: option.splits)
next
  case Timeout
  with assms show ?thesis
    by (simp add: is_open_def)
qed

lemma no_binary_trivial: "binary_sends as = [] \<Longrightarrow> binary_sends (takeWhile P as) = []"
  by (induction as rule: binary_sends.induct) simp_all

lemma open_seen_append:
  "Emit EvOpen \<in> set xs \<Longrightarrow> no_binary_before_open (xs @ ys) = no_binary_before_open xs"
  by (auto simp add: no_binary_before_open_def takeWhile_append)

lemma open_inv_step:
  assumes "open_inv s"
  shows "open_inv (step fromHeader s e)"
proof (cases "Emit EvOpen \<in> set (actions s)")
  case True
  obtain ys where ys: "actions (step fromHeader s e) = actions s @ ys"
    using prefix_step [of s fromHeader e] by (auto simp: prefix_def)
  with True assms show ?thesis
    by (simp add: open_inv_def open_seen_append)
next
  case False
  with assms have c: "\<not> is_open s" "binary_sends (actions s) = []"
    by (simp_all add: open_inv_def)
  show ?thesis
  proof (cases "e = SocketOpen \<and> connecting s")
    case True
    let ?t = "act [Emit (EvSendJson (handshake s)), SocketSendText (handshake s), Emit EvOpen]
                (set_ready OPEN s)"
    have "prefix (actions ?t) (actions (emit_open (open_once s) ?t))"
      using emit_open_effect [of ?t "open_once s"] connecting_open_after True by simp
    then obtain zs where zs: "actions (emit_open (open_once s) ?t) = actions ?t @ zs"
      by (auto simp: prefix_def)
    have e: "actions (step fromHeader s e) =
       (actions s @ [Emit (EvSendJson (handshake s)), SocketSendText (handshake s)])
         @ Emit EvOpen # zs"
      using True zs by (simp add: step_SocketOpen del: step.simps)
    have "takeWhile (\<lambda>a. a \<noteq> Emit EvOpen) (actions (step fromHeader s e))
       = actions s @ [Emit (EvSendJson (handshake s)), SocketSendText (handshake s)]"
      unfolding e using False by (subst takeWhile_append2) auto
    then have "no_binary_before_open (actions (step fromHeader s e))"
      using c by (simp add: no_binary_before_open_def binary_sends_append)
    moreover have "Emit EvOpen \<in> set (actions (step fromHeader s e))"
      unfolding e by simp
    ultimately show ?thesis by (simp add: open_inv_def)
  next
    case False
    then have "e = SocketOpen \<longrightarrow> \<not> connecting s" by simp
    from closed_step [OF c(1) this, of fromHeader] c(2) show ?thesis
      by (simp add: open_inv_def no_binary_before_open_def no_binary_trivial)
  qed
qed

lemma open_inv_run: "open_inv s \<Longrightarrow> open_inv (run fromHeader evs s)"
  unfolding run_def
  by (induction evs arbitrary: s) (simp_all add: open_inv_step)

lemma open_inv_new: "open_inv (RecognizeStream opts hwm)"
  by (simp add: open_inv_def RecognizeStream_def no_binary_before_open_def is_open_def)

subsection \<open>The write callback and the watermark\<close>

lemma drained_simps [simp]:
  "drained (act as s) = drained s"
  "drained (afterSend s) = drained s"
  "drained (with_header tk s) = drained s"
  by (rule drained_cong; simp)+

lemma ticks_afterSend: "ticks (actions s) < ticks (actions (afterSend s)) \<Longrightarrow> drained s"
  by (rule afterSend_measures)

lemma ticks_write_callback:
  "ticks (actions s) < ticks (actions (write_callback fromHeader chunk JNull s)) \<Longrightarrow>
   drained (write_callback fromHeader chunk JNull s)"
  using ticks_afterSend [of "act [Emit (EvSendData chunk), SocketSendBinary chunk] s"]
  by (simp add: write_callback_unfold ticks_append actions_initialize split: if_splits)

lemma ticks_write_chunk:
  assumes "ticks (actions s) < ticks (actions (write_chunk fromHeader chunk reply s))"
  shows "drained (write_chunk fromHeader chunk reply s)"
proof (cases reply)
  case (Reply err token)
  let ?s1 = "with_header token
                (if truthy err then act [Emit (EvErrorRaised err), PushNull] s else s)"
  have "ticks (actions ?s1) = ticks (actions s)"
    by (simp add: ticks_append)
  with assms ticks_write_callback [of ?s1 fromHeader chunk] ticks_write_callback [of s fromHeader chunk]
  show ?thesis
    by (simp add: Reply write_chunk_unfold split: if_splits)
qed

lemma ticks_finish [simp]: "ticks (actions (finish s)) = ticks (actions s)"
  by (simp add: finish_unfold ticks_append)

lemma ticks_step:
  assumes "ticks (actions s) < ticks (actions (step fromHeader s e))"
  shows "drained (step fromHeader s e)"
proof (cases e)
  case (Write c reply)
  with assms ticks_write_chunk show ?thesis by simp
next
  case Finish
  with assms show ?thesis by simp
next
  case Stop
  with assms show ?thesis by (simp add: stop_def ticks_append)
next
  case StreamFinish
  with assms show ?thesis by (simp split: if_splits)
next
  case SocketOpen
  show ?thesis
  proof (cases "connecting s")
    case True
    let ?t = "act [Emit (EvSendJson (handshake s)), SocketSendText (handshake s), Emit EvOpen]
                (set_ready OPEN s)"
    note E = emit_open_effect [of ?t "open_once s"]
    have o: "is_open ?t" "open_once ?t = open_once s"
      using connecting_open_after [OF True] by simp_all
    have "ticks (actions ?t) = ticks (actions s)"
      by (simp add: ticks_append)
    with assms True SocketOpen E [OF o] have "drained ?t"
      by (simp add: step_SocketOpen del: step.simps)
    moreover have "drained (emit_open (open_once s) ?t) = drained ?t"
      using E [OF o] by (intro drained_cong) simp_all
    ultimately show ?thesis
      using True by (simp add: SocketOpen step_SocketOpen del: step.simps)
  next
    case False
    with assms SocketOpen show ?thesis
      by (simp add: step_SocketOpen del: step.simps)
  qed
next
  case (SocketMessage fr)
  with assms onmessage_effect [of fr s] show ?thesis
    by (simp split: option.splits if_splits)
next
  case SocketError
  with assms show ?thesis
    by (simp add: onerror_def ticks_append split: option.splits)
next
  case (SocketClosed code reason)
  with assms show ?thesis
    by (simp add: onclose_def ticks_append split: option.splits)
next
  case (Buffered n)
  with assms show ?thesis by simp
next
  case Timeout
  with assms ticks_afterSend [of "s\<lparr>timers := timers s - 1\<rparr>"] show ?thesis
    by (simp split: if_splits)
qed

subsection \<open>Writes on a flowing stream\<close>

lemma flowing_write_callback:
  "flowing s \<Longrightarrow>
   flowing (write_callback fromHeader chunk JNull s)
   \<and> binary_sends (actions (write_callback fromHeader chunk JNull s))
       = binary_sends (actions s) @ [chunk]"
  by (simp add: flowing_def write_callback_unfold binary_sends_append)

lemma flowing_write_chunk:
  assumes "flowing s"
  shows "flowing (write_chunk fromHeader chunk reply s)
   \<and> binary_sends (actions (write_chunk fromHeader chunk reply s))
       = binary_sends (actions s) @ [chunk]"
proof (cases reply)
  case (Reply err token)
  let ?s1 = "with_header token
                (if truthy err then act [Emit (EvErrorRaised err), PushNull] s else s)"
  have "flowing ?s1" "binary_sends (actions ?s1) = binary_sends (actions s)"
    using assms by (simp_all add: flowing_def binary_sends_append)
  with flowing_write_callback [of ?s1 fromHeader chunk]
    flowing_write_callback [OF assms, of fromHeader chunk]
  show ?thesis
    by (simp add: Reply write_chunk_unfold)
qed

lemma flowing_step:
  assumes "flowing s" and "is_flow e"
  shows "flowing (step fromHeader s e)
   \<and> binary_sends (actions (step fromHeader s e)) = binary_sends (actions s) @ written [e]"
proof (cases e)
  case (Write c reply)
  with flowing_write_chunk [OF assms(1)] show ?thesis by simp
next
  case (Buffered n)
  with assms show ?thesis
    by (auto simp: flowing_def is_open_def split: option.splits)
next
  case Timeout
  with assms show ?thesis
    by (simp add: flowing_def is_open_def)
qed (use assms in \<open>simp_all add: is_flow_def\<close>)

lemma written_append: "written (xs @ ys) = written xs @ written ys"
  by (induction xs rule: written.induct) simp_all

lemma flowing_run:
  "flowing s \<Longrightarrow> \<forall>e\<in>set evs. is_flow e \<Longrightarrow>
   flowing (run fromHeader evs s)
   \<and> binary_sends (actions (run fromHeader evs s)) = binary_sends (actions s) @ written evs"
proof (induction evs arbitrary: s)
  case Nil
  then show ?case by (simp add: run_def)
next
  case (Cons e evs)
  from Cons.prems have f: "flowing (step fromHeader s e)"
    and b: "binary_sends (actions (step fromHeader s e)) = binary_sends (actions s) @ written [e]"
    using flowing_step [of s e fromHeader] by simp_all
  from Cons.IH [OF f] Cons.prems(2) b show ?case
    using written_append [of "[e]" evs] by (simp add: run_def)
qed

subsection \<open>Polling\<close>

lemma waiting_step:
  assumes "socket s = Some sk" "watermark s < bufferedAmount sk" "0 < timers s"
  shows "socket (step fromHeader s Timeout) = Some sk
     \<and> highWaterMark (step fromHeader s Timeout) = highWaterMark s
     \<and> timers (step fromHeader s Timeout) = timers s
     \<and> actions (step fromHeader s Timeout) = actions s @ [SetTimeout 10]"
  using assms by (simp add: afterSend_def watermark_def)

lemma waiting_run:
  assumes "socket s = Some sk" "watermark s < bufferedAmount sk" "0 < timers s"
  shows "socket (run fromHeader (replicate k Timeout) s) = Some sk
     \<and> highWaterMark (run fromHeader (replicate k Timeout) s) = highWaterMark s
     \<and> timers (run fromHeader (replicate k Timeout) s) = timers s
     \<and> actions (run fromHeader (replicate k Timeout) s) = actions s @ replicate k (SetTimeout 10)"
  using assms
proof (induction k arbitrary: s)
  case 0
  then show ?case by (simp add: run_def)
next
  case (Suc k)
  let ?t = "step fromHeader s Timeout"
  note W = waiting_step [OF Suc.prems, of fromHeader]
  have w: "watermark ?t = watermark s"
    using W by (simp add: watermark_def)
  have "socket ?t = Some sk" "watermark ?t < bufferedAmount sk" "0 < timers ?t"
    using W w Suc.prems by simp_all
  from Suc.IH [OF this] W show ?case
    by (simp add: run_def del: step.simps)
qed

lemma run_append: "run fromHeader (xs @ ys) s = run fromHeader ys (run fromHeader xs s)"
  by (simp add: run_def)

lemma polling:
  assumes "socket s = Some sk" "watermark s < bufferedAmount sk" "n \<le> watermark s"
  shows "actions (run fromHeader (replicate k Timeout @ [Buffered n, Timeout]) (afterSend s))
     = actions s @ replicate (Suc k) (SetTimeout 10) @ [NextTick]"
proof -
  let ?w = "afterSend s"
  have a: "socket ?w = Some sk" "watermark ?w < bufferedAmount sk" "0 < timers ?w"
    "actions ?w = actions s @ [SetTimeout 10]" "highWaterMark ?w = highWaterMark s"
    using assms by (simp_all add: afterSend_def watermark_def)
  let ?u = "run fromHeader (replicate k Timeout) ?w"
  note R = waiting_run [OF a(1) a(2) a(3), of fromHeader k]
  have u: "socket ?u = Some sk" "highWaterMark ?u = highWaterMark s" "0 < timers ?u"
     "actions ?u = actions s @ replicate (Suc k) (SetTimeout 10)"
    using R a by (simp_all add: replicate_append_same)
  have "actions (run fromHeader [Buffered n, Timeout] ?u) = actions ?u @ [NextTick]"
    using u assms(3) by (simp add: run_def afterSend_def watermark_def)
  then show ?thesis
    unfolding run_append using u(4) by simp
qed

subsection \<open>The step in which the socket opens\<close>

lemma step_SocketOpen_binary:
  assumes "connecting s"
  shows "binary_sends (actions (step fromHeader s SocketOpen))
           = binary_sends (actions s) @ pending_chunks (open_once s)"
proof -
  let ?t = "act [Emit (EvSendJson (handshake s)), SocketSendText (handshake s), Emit EvOpen]
                (set_ready OPEN s)"
  have o: "is_open ?t" "open_once ?t = open_once s"
    using connecting_open_after [OF assms] by simp_all
  from emit_open_effect [OF o] assms show ?thesis
    by (simp add: step_SocketOpen binary_sends_append del: step.simps)
qed

lemma finish_finish: "finish (finish s) = finish s"
  by (simp add: finish_unfold [of s] finish_def [of "act _ _"] finish_def [of "_\<lparr>open_once := _\<rparr>"])

lemma step_SocketOpen_stops:
  assumes "connecting s" and "get (handshake s) ''action'' = JStr ''start''"
  shows "stop_frames (actions (step fromHeader s SocketOpen))
           = stop_frames (actions s) + pending_stops s"
proof -
  let ?t = "act [Emit (EvSendJson (handshake s)), SocketSendText (handshake s), Emit EvOpen]
                (set_ready OPEN s)"
  have o: "is_open ?t" "open_once ?t = open_once s"
    using connecting_open_after [OF assms(1)] by simp_all
  from emit_open_effect [OF o] assms show ?thesis
    by (simp add: step_SocketOpen stop_frames_append pending_stops_def del: step.simps)
qed

subsection \<open>Every send is followed by a check\<close>

lemma afterSend_check:
  "socket s \<noteq> None \<Longrightarrow>
   actions (afterSend s) = actions s @ [afterSend_action s]
   \<and> timers (afterSend s) = (if drained s then timers s else Suc (timers s))"
  by (auto simp: afterSend_def afterSend_action_def drained_def)

lemma afterSend_action_cong:
  "socket s' = socket s \<Longrightarrow> highWaterMark s' = highWaterMark s \<Longrightarrow>
   afterSend_action s' = afterSend_action s"
  using drained_cong [of s' s] by (simp add: afterSend_action_def)

lemma open_listener_actions_cong:
  assumes "socket s' = socket s" "highWaterMark s' = highWaterMark s"
  shows "open_listener_actions s' l = open_listener_actions s l"
  using afterSend_action_cong [OF assms] by (cases l) simp_all

lemma write_callback_flowing:
  assumes "flowing s"
  shows "actions (write_callback fromHeader c JNull s)
           = actions s @ [Emit (EvSendData c), SocketSendBinary c, afterSend_action s]
     \<and> timers (write_callback fromHeader c JNull s)
           = (if drained s then timers s else Suc (timers s))
     \<and> socket (write_callback fromHeader c JNull s) = socket s
     \<and> highWaterMark (write_callback fromHeader c JNull s) = highWaterMark s"
proof -
  define u where "u = act [Emit (EvSendData c), SocketSendBinary c] s"
  have o: "socket u \<noteq> None"
    using assms by (auto simp: u_def flowing_def is_open_def split: option.splits)
  have c: "afterSend_action u = afterSend_action s" "drained u = drained s"
    by (simp_all add: u_def afterSend_action_def)
  have w: "write_callback fromHeader c JNull s = afterSend u"
    using assms by (simp add: u_def flowing_def write_callback_unfold)
  have f: "actions u = actions s @ [Emit (EvSendData c), SocketSendBinary c]"
    "timers u = timers s" "socket u = socket s" "highWaterMark u = highWaterMark s"
    by (simp_all add: u_def)
  from afterSend_check [OF o] f show ?thesis
    unfolding w c by simp
qed

lemma write_chunk_flowing:
  assumes "flowing s"
  shows "actions (write_chunk fromHeader c reply s)
           = actions s @ token_error_actions s reply
               @ [Emit (EvSendData c), SocketSendBinary c, afterSend_action s]
     \<and> timers (write_chunk fromHeader c reply s)
           = (if drained s then timers s else Suc (timers s))
     \<and> socket (write_chunk fromHeader c reply s) = socket s
     \<and> highWaterMark (write_chunk fromHeader c reply s) = highWaterMark s"
proof (cases reply)
  case (Reply err token)
  show ?thesis
  proof (cases "truthy (get (options s) ''token_manager'')")
    case False
    then have "write_chunk fromHeader c reply s = write_callback fromHeader c JNull s"
      "token_error_actions s reply = []"
      by (simp_all add: Reply write_chunk_unfold token_error_actions_def)
    with write_callback_flowing [OF assms, of fromHeader c] show ?thesis
      by simp
  next
    case True
    define s1 where "s1 = with_header token
                (if truthy err then act [Emit (EvErrorRaised err), PushNull] s else s)"
    have w: "write_chunk fromHeader c reply s = write_callback fromHeader c JNull s1"
      using True by (simp add: Reply write_chunk_unfold s1_def)
    have f: "flowing s1"
      using assms by (simp add: flowing_def s1_def)
    have c: "afterSend_action s1 = afterSend_action s" "drained s1 = drained s"
      "timers s1 = timers s" "socket s1 = socket s" "highWaterMark s1 = highWaterMark s"
      "actions s1 = actions s @ token_error_actions s reply"
      using True by (simp_all add: afterSend_action_def s1_def Reply token_error_actions_def)
    from write_callback_flowing [OF f, of fromHeader c] show ?thesis
      unfolding w c by simp
  qed
qed

lemma emit_open_actions:
  "is_open s \<Longrightarrow> open_once s = ls \<Longrightarrow>
   actions (emit_open ls s) = actions s @ concat (map (open_listener_actions s) ls)
   \<and> timers (emit_open ls s)
       = (if drained s then timers s else timers s + length (pending_chunks ls))"
proof (induction ls arbitrary: s)
  case Nil
  then show ?case by simp
next
  case (Cons l ls)
  define s0 where "s0 = s\<lparr>open_once := remove1 l (open_once s)\<rparr>"
  define t where "t = (case l of
            SendChunk c \<Rightarrow> afterSend (act [Emit (EvSendData c), SocketSendBinary c] s0)
          | SendStop \<Rightarrow> act [Emit (EvSendJson closingMessage), SocketSendText closingMessage] s0)"
  have o0: "is_open s0" "open_once s0 = ls"
    using Cons.prems by (simp_all add: s0_def is_open_def)
  have r: "run_listener l s0 = Inr t"
    unfolding t_def using o0(1) by (rule run_listener_open)
  have e: "emit_open (l # ls) s = emit_open ls t"
    using r by (simp add: s0_def)
  have ot: "is_open t" "open_once t = ls"
    using o0 by (cases l; simp add: t_def)+
  have ft: "socket t = socket s" "highWaterMark t = highWaterMark s"
    by (cases l; simp add: t_def s0_def)+
  have sk: "socket s \<noteq> None"
    using Cons.prems(1) by (auto simp: is_open_def split: option.splits)
  have at: "actions t = actions s @ open_listener_actions s l
     \<and> timers t = (if drained s then timers s else timers s + length (pending_chunks [l]))"
  proof (cases l)
    case (SendChunk c)
    define u where "u = act [Emit (EvSendData c), SocketSendBinary c] s0"
    have su: "socket u = socket s" "highWaterMark u = highWaterMark s"
      by (simp_all add: u_def s0_def)
    have f: "socket u \<noteq> None" "actions u = actions s @ [Emit (EvSendData c), SocketSendBinary c]"
      "timers u = timers s"
      using sk by (simp_all add: u_def s0_def)
    have c: "afterSend_action u = afterSend_action s" "drained u = drained s"
      using afterSend_action_cong [OF su] drained_cong [OF su] by simp_all
    have "t = afterSend u"
      by (simp add: t_def SendChunk u_def)
    with afterSend_check [OF f(1)] show ?thesis
      unfolding c f by (simp add: SendChunk)
  next
    case SendStop
    then show ?thesis by (simp add: t_def s0_def)
  qed
  have l: "map (open_listener_actions t) ls = map (open_listener_actions s) ls"
    using open_listener_actions_cong [OF ft] by simp
  have d: "drained t = drained s"
    using ft by (rule drained_cong)
  have pc: "length (pending_chunks (l # ls)) = length (pending_chunks [l]) + length (pending_chunks ls)"
    by (cases l) simp_all
  from Cons.IH [OF ot] at show ?case
    unfolding e pc l d by simp
qed

lemma set_ready_same:
  "drained (set_ready r s) = drained s" "afterSend_action (set_ready r s) = afterSend_action s"
  "open_listener_actions (set_ready r s) l = open_listener_actions s l"
proof -
  show d: "drained (set_ready r s) = drained s"
    by (cases "socket s") (simp_all add: drained_def watermark_def set_ready_def)
  then show c: "afterSend_action (set_ready r s) = afterSend_action s"
    by (simp add: afterSend_action_def)
  then show "open_listener_actions (set_ready r s) l = open_listener_actions s l"
    by (cases l) simp_all
qed

lemma step_SocketOpen_actions:
  assumes "connecting s"
  shows "actions (step fromHeader s SocketOpen)
           = actions s @ [Emit (EvSendJson (handshake s)), SocketSendText (handshake s), Emit EvOpen]
               @ concat (map (open_listener_actions s) (open_once s))
     \<and> timers (step fromHeader s SocketOpen)
           = (if drained s then timers s else timers s + length (pending_chunks (open_once s)))"
proof -
  define t where "t = act [Emit (EvSendJson (handshake s)), SocketSendText (handshake s), Emit EvOpen]
                (set_ready OPEN s)"
  have o: "is_open t" "open_once t = open_once s"
    using connecting_open_after [OF assms] by (simp_all add: t_def set_ready_def)
  have st: "socket t = socket (set_ready OPEN s)" "highWaterMark t = highWaterMark (set_ready OPEN s)"
    by (simp_all add: t_def)
  have d: "drained t = drained s"
    using drained_cong [OF st] by (simp add: set_ready_same)
  have l: "map (open_listener_actions t) (open_once s) = map (open_listener_actions s) (open_once s)"
    using open_listener_actions_cong [OF st] by (simp add: set_ready_same)
  have f: "timers t = timers s" "actions t = actions s
      @ [Emit (EvSendJson (handshake s)), SocketSendText (handshake s), Emit EvOpen]"
    by (simp_all add: t_def set_ready_def)
  have e: "step fromHeader s SocketOpen = emit_open (open_once s) t"
    using assms by (simp add: step_SocketOpen t_def del: step.simps)
  from emit_open_actions [OF o] show ?thesis
    unfolding e l d f by simp
qed

lemma step_Timeout_actions:
  assumes "0 < timers s" "socket s \<noteq> None"
  shows "actions (step fromHeader s Timeout) = actions s @ [afterSend_action s]
     \<and> timers (step fromHeader s Timeout) = (if drained s then timers s - 1 else timers s)"
proof -
  define u where "u = s\<lparr>timers := timers s - 1\<rparr>"
  have su: "socket u = socket s" "highWaterMark u = highWaterMark s"
    by (simp_all add: u_def)
  have c: "afterSend_action u = afterSend_action s" "drained u = drained s"
    using afterSend_action_cong [OF su] drained_cong [OF su] by simp_all
  have f: "socket u \<noteq> None" "actions u = actions s" "timers u = timers s - 1"
    using assms by (simp_all add: u_def)
  have e: "step fromHeader s Timeout = afterSend u"
    using assms by (simp add: u_def)
  from afterSend_check [OF f(1)] assms(1) show ?thesis
    unfolding e c f by simp
qed

lemma write_then_poll:
  assumes "flowing s" "socket s = Some sk" "watermark s < bufferedAmount sk" "n \<le> watermark s"
  shows "actions (run fromHeader (Write c reply # replicate k Timeout @ [Buffered n, Timeout]) s)
     = actions s @ token_error_actions s reply @ [Emit (EvSendData c), SocketSendBinary c]
         @ replicate (Suc k) (SetTimeout 10) @ [NextTick]"
proof -
  define t where "t = write_chunk fromHeader c reply s"
  note W = write_chunk_flowing [OF assms(1), of fromHeader c reply, folded t_def]
  have nd: "\<not> drained s"
    using assms(2,3) by (simp add: drained_def)
  have t: "socket t = Some sk" "highWaterMark t = highWaterMark s" "0 < timers t"
    "actions t = actions s @ token_error_actions s reply
        @ [Emit (EvSendData c), SocketSendBinary c, SetTimeout 10]"
    using W nd assms(2) by (simp_all add: afterSend_action_def)
  have wt: "watermark t = watermark s"
    using t(2) by (simp add: watermark_def)
  define u where "u = run fromHeader (replicate k Timeout) t"
  have "watermark t < bufferedAmount sk"
    using assms(3) wt by simp
  note R = waiting_run [OF t(1) this t(3), of fromHeader k, folded u_def]
  have u: "socket u = Some sk" "highWaterMark u = highWaterMark s" "0 < timers u"
     "actions u = actions s @ token_error_actions s reply
        @ [Emit (EvSendData c), SocketSendBinary c] @ replicate (Suc k) (SetTimeout 10)"
    using R t by (simp_all add: replicate_append_same)
  have "actions (run fromHeader [Buffered n, Timeout] u) = actions u @ [NextTick]"
    using u(1,2,3) assms(4) by (simp add: run_def afterSend_def watermark_def)
  moreover have "run fromHeader (Write c reply # replicate k Timeout @ [Buffered n, Timeout]) s
      = run fromHeader [Buffered n, Timeout] u"
    unfolding u_def t_def by (simp add: run_def)
  ultimately show ?thesis
    using u(4) by simp
qed

lemma callbacks_step:
  assumes "flowing s" and "is_flow e"
  shows "ticks (actions (step fromHeader s e)) + timers (step fromHeader s e)
       = ticks (actions s) + timers s + length (written [e])"
proof (cases e)
  case (Write c reply)
  have "ticks (token_error_actions s reply) = 0"
    by (cases reply) (simp add: token_error_actions_def)
  with write_chunk_flowing [OF assms(1), of fromHeader c reply] show ?thesis
    by (simp add: Write ticks_append afterSend_action_def)
next
  case (Buffered n)
  then show ?thesis by simp
next
  case Timeout
  show ?thesis
  proof (cases "0 < timers s")
    case True
    have "socket s \<noteq> None"
      using assms(1) by (auto simp: flowing_def is_open_def split: option.splits)
    from step_Timeout_actions [OF True this, of fromHeader] True show ?thesis
      unfolding Timeout by (simp add: ticks_append afterSend_action_def del: step.simps)
  next
    case False
    then show ?thesis by (simp add: Timeout)
  qed
qed (use assms in \<open>simp_all add: is_flow_def\<close>)

lemma callbacks_run:
  "flowing s \<Longrightarrow> \<forall>e\<in>set evs. is_flow e \<Longrightarrow>
   ticks (actions (run fromHeader evs s)) + timers (run fromHeader evs s)
     = ticks (actions s) + timers s + length (written evs)"
proof (induction evs arbitrary: s)
  case Nil
  then show ?case by (simp add: run_def)
next
  case (Cons e evs)
  define t where "t = step fromHeader s e"
  from Cons.prems have f: "flowing t"
    using flowing_step [of s e fromHeader] by (simp add: t_def)
  have c: "ticks (actions t) + timers t = ticks (actions s) + timers s + length (written [e])"
    using Cons.prems callbacks_step [of s e fromHeader] by (simp add: t_def)
  have w: "length (written (e # evs)) = length (written [e]) + length (written evs)"
    using written_append [of "[e]" evs] by simp
  have r: "run fromHeader (e # evs) s = run fromHeader evs t"
    by (simp add: run_def t_def)
  from Cons.IH [OF f] Cons.prems(2) c show ?case
    unfolding w r by simp
qed

section \<open>The sample run\<close>

lemma sample_pick_opening:
  "pick [(''content-type'', JStr ''audio/wav'')] OPENING_MESSAGE_PARAMS_ALLOWED
     = [(''content-type'', JStr ''audio/wav'')]"
  by (simp add: pick_def has_key_def get_def OPENING_MESSAGE_PARAMS_ALLOWED_def)

lemma sample_apply_deprecated:
  "apply_deprecated [(''content-type'', JStr ''audio/wav'')]
     = [(''content-type'', JStr ''audio/wav'')]"
  by (simp add: apply_deprecated_def fallback_token_def fallback_content_type_def
      fallback_opt_out_def fallback_customization_id_def get_def)

lemma sample_queryParams:
  "queryParams [(''content-type'', JStr ''audio/wav'')]
     = [(''model'', JStr ''en-US_BroadbandModel'')]"
  by (simp add: queryParams_def pick_def has_key_def get_def QUERY_PARAMS_ALLOWED_def
      extend_obj_def DEFAULT_MODEL_def)

lemma sniff_samples:
  "wav_sniffer RIFF = JStr ''audio/wav''" "wav_sniffer noise = JUndefined"
  by (simp_all add: wav_sniffer_def RIFF_def noise_def)

lemma sample_first_write:
  "write_chunk wav_sniffer RIFF no_token sample_new = sample_connecting"
  by (simp add: write_chunk_unfold no_token_def write_callback_unfold sample_new_def
      RecognizeStream_def get_def sniff_samples initialize_def Let_def sample_apply_deprecated
      sample_queryParams openingMessage_def sample_pick_opening sample_connecting_def)

lemma sample_opening: "step wav_sniffer sample_connecting SocketOpen = sample_open"
  by (simp add: step_SocketOpen connecting_def sample_connecting_def set_ready_def act_def
      sendData_def socket_send_def is_open_def afterSend_def watermark_def sample_open_def
      del: step.simps)

lemma sample_run:
  "run wav_sniffer [Write RIFF no_token, SocketOpen] (RecognizeStream [] (Some 16384)) = sample_open"
  using sample_first_write sample_opening
  by (simp add: run_def sample_new_def del: step.simps(5))

lemma sample_run_more:
  "run wav_sniffer (Write RIFF no_token # SocketOpen # evs) (RecognizeStream [] (Some 16384))
     = run wav_sniffer evs sample_open"
  using run_append [of wav_sniffer "[Write RIFF no_token, SocketOpen]" evs] sample_run
  by simp

lemma sample_open_facts:
  "is_open sample_open" "flowing sample_open" "\<not> finished sample_open"
  "binary_sends (actions sample_open) = [RIFF]" "stop_frames (actions sample_open) = 0"
  "PushNull \<notin> set (actions sample_open)"
  by (simp_all add: sample_open_def is_open_def flowing_def get_def)

lemma sample_finish_run:
  "stop_frames (actions (run wav_sniffer finish_run (RecognizeStream [] (Some 16384)))) = 1"
proof -
  have a: "step wav_sniffer sample_new (Write RIFF no_token) = sample_connecting"
    using sample_first_write by simp
  have b: "step wav_sniffer (step wav_sniffer sample_connecting Finish) Stop
     = sample_connecting\<lparr>finished := True, open_once := [SendChunk RIFF, SendStop],
         actions := actions sample_connecting @ [Emit EvStop]\<rparr>"
    by (simp add: finish_unfold stop_def sample_connecting_def is_open_def act_def)
  have c: "stop_frames (actions (step wav_sniffer
      (sample_connecting\<lparr>finished := True, open_once := [SendChunk RIFF, SendStop],
         actions := actions sample_connecting @ [Emit EvStop]\<rparr>) SocketOpen)) = 1"
    by (simp add: step_SocketOpen connecting_def sample_connecting_def set_ready_def act_def
      sendData_def sendJSON_def socket_send_def is_open_def afterSend_def watermark_def
      get_def closingMessage_def stop_frames_append del: step.simps)
  have d: "finished (step wav_sniffer
      (sample_connecting\<lparr>finished := True, open_once := [SendChunk RIFF, SendStop],
         actions := actions sample_connecting @ [Emit EvStop]\<rparr>) SocketOpen)"
    by (simp add: step_SocketOpen connecting_def sample_connecting_def set_ready_def act_def
      sendData_def sendJSON_def socket_send_def is_open_def afterSend_def watermark_def
      del: step.simps)
  have e: "finished u \<Longrightarrow> run wav_sniffer [StreamFinish, Finish] u = u" for u
    by (simp add: run_def finish_def)
  have "run wav_sniffer finish_run (RecognizeStream [] (Some 16384))
      = step wav_sniffer
      (sample_connecting\<lparr>finished := True, open_once := [SendChunk RIFF, SendStop],
         actions := actions sample_connecting @ [Emit EvStop]\<rparr>) SocketOpen"
    using a b e [OF d]
    by (simp add: finish_run_def run_def sample_new_def del: step.simps)
  then show ?thesis
    using c by simp
qed

lemma sample_frame_facts:
  "getprop sample_frame ''error'' = Some JUndefined"
  "getprop sample_frame ''state'' \<noteq> Some (JStr ''listening'')"
  "getprop sample_frame ''results'' = Some (JArr sample_results)"
  "getprop listening_frame ''error'' = Some JUndefined"
  "getprop listening_frame ''state'' = Some (JStr ''listening'')"
  by (simp_all add: sample_frame_def listening_frame_def get_def)

lemma sample_modes:
  "truthy (get (options object_stream) ''readableObjectMode'')"
  "\<not> truthy (get (options sample_new) ''readableObjectMode'')"
  "actions object_stream = []" "actions sample_new = []"
  by (simp_all add: object_stream_def sample_new_def RecognizeStream_def get_def)

lemma sample_forEach: "forEach_result sample_results = [Push (JStr ''hello world'')]"
  by (simp add: sample_results_def result_push_def get_def push_def)

section \<open>The claims about the stream\<close>

text \<open>
  Claim C1, as amended. For every sequence of calls and socket events on a new stream,
  no binary chunk is sent on the socket before the stream has emitted its \<open>open\<close>
  event. The chunks that wait for this event are sent in the very step in which the
  socket opens, whether or not a \<open>listening\<close> frame has been received.
\<close>

theorem no_binary_before_open_event:
  "no_binary_before_open (actions (run fromHeader evs (RecognizeStream opts hwm)))
   \<and> (connecting s \<longrightarrow>
        binary_sends (actions (step fromHeader s SocketOpen))
          = binary_sends (actions s) @ pending_chunks (open_once s))"
  using open_inv_run [OF open_inv_new, of fromHeader evs opts hwm] step_SocketOpen_binary [of s fromHeader]
  by (simp add: open_inv_def)

theorem no_binary_before_open_event_witness:
  "connecting sample_connecting
   \<and> binary_sends (actions sample_connecting) = []
   \<and> binary_sends (actions (step wav_sniffer sample_connecting SocketOpen)) = [RIFF]
   \<and> no_binary_before_open
        (actions (run wav_sniffer [Write RIFF no_token, SocketOpen] (RecognizeStream [] (Some 16384))))"
proof -
  have c: "connecting sample_connecting" "binary_sends (actions sample_connecting) = []"
    "pending_chunks (open_once sample_connecting) = [RIFF]"
    by (simp_all add: connecting_def sample_connecting_def)
  show ?thesis
    using no_binary_before_open_event
      [of wav_sniffer "[Write RIFF no_token, SocketOpen]" "[]" "Some 16384" sample_connecting] c
    by simp
qed

text \<open>
  Claim C1 as stated fails: on a new stream, the first chunk is sent when the socket
  opens, while no frame at all has been received.
\<close>

theorem binary_before_listening_counterexample:
  "\<not> no_binary_before_listening
       (actions (run wav_sniffer [Write RIFF no_token, SocketOpen] (RecognizeStream [] (Some 16384))))"
  unfolding sample_run
  by (simp add: sample_open_def no_binary_before_listening_def is_listening_received_def)

text \<open>
  Claim C2, as amended. For every stream state, an inbound frame whose \<open>error\<close> is set
  makes the stream emit the \<open>message\<close> event and one \<open>error\<close> event carrying the
  error value, and changes nothing else: the flags, the socket and the listeners stay
  as they are and no end of output is signalled. A chunk written afterwards to a
  flowing stream is sent like any other.
\<close>

theorem error_frame_only_emits:
  assumes "getprop data ''error'' = Some e" and "truthy e"
  shows "onmessage (JSONFrame data) s
           = act [Emit (EvMessage (JSONFrame data)), Emit (EvError ''Error'' e)] s
     \<and> (flowing s \<longrightarrow>
          binary_sends (actions (write_chunk fromHeader c reply (onmessage (JSONFrame data) s)))
            = binary_sends (actions s) @ [c])"
proof -
  have m: "onmessage (JSONFrame data) s
           = act [Emit (EvMessage (JSONFrame data)), Emit (EvError ''Error'' e)] s"
    using assms by (simp add: onmessage_def emitError_def Let_def act_act)
  have "flowing s \<longrightarrow>
          binary_sends (actions (write_chunk fromHeader c reply (onmessage (JSONFrame data) s)))
            = binary_sends (actions s) @ [c]"
  proof
    assume "flowing s"
    then have "flowing (onmessage (JSONFrame data) s)"
      by (simp add: m flowing_def)
    from flowing_write_chunk [OF this, of fromHeader c reply] show
      "binary_sends (actions (write_chunk fromHeader c reply (onmessage (JSONFrame data) s)))
            = binary_sends (actions s) @ [c]"
      by (simp add: m binary_sends_append)
  qed
  with m show ?thesis by simp
qed

theorem error_frame_only_emits_witness:
  "getprop error_frame ''error'' = Some (JStr ''Session timed out.'')
   \<and> truthy (JStr ''Session timed out.'')
   \<and> flowing sample_open
   \<and> outputs (actions (onmessage (JSONFrame error_frame) sample_open)) = []
   \<and> binary_sends (actions (write_chunk wav_sniffer noise no_token
         (onmessage (JSONFrame error_frame) sample_open))) = [RIFF, noise]"
proof -
  have h: "getprop error_frame ''error'' = Some (JStr ''Session timed out.'')"
    "truthy (JStr ''Session timed out.'')"
    by (simp_all add: error_frame_def get_def)
  have o: "outputs (actions sample_open) = []"
    by (simp add: sample_open_def outputs_def is_output_def)
  note T = error_frame_only_emits [OF h, of sample_open wav_sniffer noise no_token]
  have a: "outputs (actions (onmessage (JSONFrame error_frame) sample_open)) = []"
    using T [THEN conjunct1] o by (simp add: outputs_def is_output_def)
  have b: "binary_sends (actions (write_chunk wav_sniffer noise no_token
         (onmessage (JSONFrame error_frame) sample_open))) = [RIFF, noise]"
    using T [THEN conjunct2] sample_open_facts(2,4) by simp
  show ?thesis
    using h a b sample_open_facts(2) by simp
qed

text \<open>
  Claim C2 as stated fails: after an error frame on an open connection the output has
  not ended, and the next chunk written is sent.
\<close>

theorem error_frame_counterexample:
  "PushNull \<notin> set (actions (run wav_sniffer error_frame_run (RecognizeStream [] (Some 16384))))
   \<and> binary_sends (actions (run wav_sniffer error_frame_run (RecognizeStream [] (Some 16384))))
       = [RIFF, noise]"
proof -
  have m: "step wav_sniffer sample_open (SocketMessage (JSONFrame error_frame))
     = act [Emit (EvMessage (JSONFrame error_frame)),
            Emit (EvError ''Error'' (JStr ''Session timed out.''))] sample_open"
    by (simp add: sample_open_def onmessage_def error_frame_def get_def emitError_def Let_def
        act_def)
  have w: "actions (write_chunk wav_sniffer noise no_token
        (act [Emit (EvMessage (JSONFrame error_frame)),
            Emit (EvError ''Error'' (JStr ''Session timed out.''))] sample_open))
      = actions sample_open @ [Emit (EvMessage (JSONFrame error_frame)),
            Emit (EvError ''Error'' (JStr ''Session timed out.'')),
            Emit (EvSendData noise), SocketSendBinary noise, NextTick]"
    by (simp add: write_chunk_unfold no_token_def write_callback_unfold sample_open_def
        get_def is_open_def afterSend_def watermark_def act_def)
  have "actions (run wav_sniffer error_frame_run (RecognizeStream [] (Some 16384)))
      = actions sample_open @ [Emit (EvMessage (JSONFrame error_frame)),
            Emit (EvError ''Error'' (JStr ''Session timed out.'')),
            Emit (EvSendData noise), SocketSendBinary noise, NextTick]"
    unfolding error_frame_run_def sample_run_more
    using m w by (simp add: run_def del: step.simps(6))
  then show ?thesis
    using sample_open_facts by (simp add: binary_sends_append)
qed

text \<open>
  Claim C3, as amended. \<open>finish\<close> is idempotent: a second call changes nothing. On
  every run of a new stream, however often \<open>finish\<close> is called, directly, by \<open>stop\<close>
  or at the end of the input, at most one \<open>stop\<close> frame is sent; once the stream is
  finished, exactly one \<open>stop\<close> message has been sent or waits for the \<open>open\<close>
  event, and none before. The first call sends the frame at once when the socket is
  open; otherwise it registers one listener for the \<open>open\<close> event, and the step in
  which the socket opens sends the waiting messages.
\<close>

theorem finish_sends_stop_at_most_once:
  "finish (finish s) = finish s
   \<and> stop_frames (actions (run fromHeader evs (RecognizeStream opts hwm))) \<le> 1
   \<and> stop_frames (actions (run fromHeader evs (RecognizeStream opts hwm)))
        + pending_stops (run fromHeader evs (RecognizeStream opts hwm))
       = (if finished (run fromHeader evs (RecognizeStream opts hwm)) then 1 else 0)
   \<and> (\<not> finished s \<and> is_open s \<longrightarrow>
        actions (finish s)
          = actions s @ [Emit (EvSendJson closingMessage), SocketSendText closingMessage])
   \<and> (\<not> finished s \<and> \<not> is_open s \<longrightarrow>
        finish s = s\<lparr>finished := True, open_once := open_once s @ [SendStop]\<rparr>)
   \<and> (connecting s \<and> get (handshake s) ''action'' = JStr ''start'' \<longrightarrow>
        stop_frames (actions (step fromHeader s SocketOpen))
          = stop_frames (actions s) + pending_stops s)"
  using finish_finish [of s] at_most_one_stop [of fromHeader evs opts hwm]
    step_SocketOpen_stops [of s fromHeader]
  by (simp add: finish_unfold)

theorem finish_sends_stop_at_most_once_witness:
  "\<not> finished sample_open \<and> is_open sample_open
   \<and> stop_frames (actions (finish sample_open)) = 1
   \<and> stop_frames (actions (finish (finish sample_open))) = 1
   \<and> \<not> finished sample_connecting \<and> \<not> is_open sample_connecting
   \<and> connecting (finish sample_connecting)
   \<and> get (handshake (finish sample_connecting)) ''action'' = JStr ''start''
   \<and> stop_frames (actions (step wav_sniffer (finish sample_connecting) SocketOpen)) = 1
   \<and> stop_frames (actions (run wav_sniffer finish_run (RecognizeStream [] (Some 16384)))) \<le> 1
   \<and> stop_frames (actions (run wav_sniffer finish_run (RecognizeStream [] (Some 16384)))) = 1"
proof -
  note A = finish_sends_stop_at_most_once
      [of sample_open wav_sniffer finish_run "[]" "Some 16384"]
  note B = finish_sends_stop_at_most_once [of sample_connecting]
  note C = finish_sends_stop_at_most_once [of "finish sample_connecting" wav_sniffer]
  have o: "\<not> finished sample_open" "is_open sample_open"
    "stop_frames (actions sample_open) = 0"
    using sample_open_facts by simp_all
  have c: "\<not> finished sample_connecting" "\<not> is_open sample_connecting"
    "connecting sample_connecting"
    "get (handshake sample_connecting) ''action'' = JStr ''start''"
    "stop_frames (actions sample_connecting) = 0" "pending_stops sample_connecting = 0"
    by (simp_all add: sample_connecting_def is_open_def connecting_def get_def
        pending_stops_def)
  have f: "finish sample_connecting
     = sample_connecting\<lparr>finished := True, open_once := open_once sample_connecting @ [SendStop]\<rparr>"
    using B c by simp
  have d: "connecting (finish sample_connecting)"
    "get (handshake (finish sample_connecting)) ''action'' = JStr ''start''"
    "stop_frames (actions (finish sample_connecting)) = 0"
    "pending_stops (finish sample_connecting) = 1"
    using c by (simp_all add: f connecting_def pending_stops_def)
  have 1: "stop_frames (actions (finish sample_open)) = 1"
    using A o by (simp add: stop_frames_append)
  have 2: "finish (finish sample_open) = finish sample_open"
    using A by simp
  have 3: "stop_frames (actions (step wav_sniffer (finish sample_connecting) SocketOpen)) = 1"
    using C d by simp
  have 4: "stop_frames (actions (run wav_sniffer finish_run (RecognizeStream [] (Some 16384)))) \<le> 1"
    using A by simp
  show ?thesis
    using o c d 1 2 3 4 sample_finish_run by simp
qed

text \<open>
  Claim C3 as stated fails: when the connection has closed before the first call, two
  calls of \<open>finish\<close> send no \<open>stop\<close> frame at all.
\<close>

theorem finish_counterexample:
  "stop_frames (actions (run wav_sniffer early_close_run (RecognizeStream [] (Some 16384)))) \<noteq> 1"
proof -
  have c: "step wav_sniffer sample_open (SocketClosed 1006 [])
     = act [PushNull, Emit (EvClose 1006 [])]
         (sample_open\<lparr>listening := False,
            socket := Some \<lparr>readyState = CLOSED, bufferedAmount = 0\<rparr>\<rparr>)"
    by (simp add: sample_open_def onclose_def set_ready_def act_def)
  have "stop_frames (actions (run wav_sniffer [SocketClosed 1006 [], Finish, Finish] sample_open)) = 0"
    unfolding run_def
    by (simp add: c finish_unfold is_open_def sample_open_facts(5) stop_frames_append
        del: step.simps(8))
  then show ?thesis
    unfolding early_close_run_def sample_run_more by simp
qed

text \<open>
  Claim C5, as amended. For every inbound frame without error: when it is not a
  \<open>listening\<close> frame and object mode is configured, exactly one output event is
  produced, and it is the whole parsed frame, unchanged (its \<open>results\<close> with it,
  unfiltered); in text mode, with an array of results, the loop over the results pushes
  the same as on the results without the interim ones, and every output event is the
  transcript of the first alternative of a final result; a \<open>listening\<close> frame
  produces no output event.
\<close>

theorem output_shaping:
  assumes "getprop data ''error'' = Some e" and "\<not> truthy e"
  shows
   "(getprop data ''state'' \<noteq> Some (JStr ''listening'')
       \<and> truthy (get (options s) ''readableObjectMode'') \<longrightarrow>
       actions (onmessage (JSONFrame data) s)
         = actions s @ [Emit (EvMessage (JSONFrame data)), Push data])
    \<and> (getprop data ''state'' \<noteq> Some (JStr ''listening'')
       \<and> \<not> truthy (get (options s) ''readableObjectMode'')
       \<and> getprop data ''results'' = Some (JArr rs) \<longrightarrow>
       actions (onmessage (JSONFrame data) s)
         = actions s @ Emit (EvMessage (JSONFrame data)) # forEach_result rs
       \<and> forEach_result rs = forEach_result (filter (\<lambda>r. \<not> is_interim r) rs)
       \<and> (\<forall>a\<in>set (outputs (forEach_result rs)).
             \<exists>r\<in>set rs. is_final r \<and> (\<exists>t. first_transcript r = Some t \<and> a = push t)))
    \<and> (getprop data ''state'' = Some (JStr ''listening'') \<longrightarrow>
       outputs (actions (onmessage (JSONFrame data) s)) = outputs (actions s))"
proof -
  have nn: "data \<noteq> JNull"
    using assms(1) by (rule getprop_not_null)
  have a: "getprop data ''state'' \<noteq> Some (JStr ''listening'')
       \<and> truthy (get (options s) ''readableObjectMode'') \<longrightarrow>
       actions (onmessage (JSONFrame data) s)
         = actions s @ [Emit (EvMessage (JSONFrame data)), Push data]"
    using onmessage_result_frame [OF assms, of s] nn
    by (simp add: act_def push_def)
  have b: "getprop data ''state'' \<noteq> Some (JStr ''listening'')
       \<and> \<not> truthy (get (options s) ''readableObjectMode'')
       \<and> getprop data ''results'' = Some (JArr rs) \<longrightarrow>
       actions (onmessage (JSONFrame data) s)
         = actions s @ Emit (EvMessage (JSONFrame data)) # forEach_result rs"
    using onmessage_result_frame [OF assms, of s]
    by (simp add: act_def)
  have c: "getprop data ''state'' = Some (JStr ''listening'') \<longrightarrow>
       outputs (actions (onmessage (JSONFrame data) s)) = outputs (actions s)"
    using onmessage_listening_frame [OF assms, of s] by simp
  from a b c forEach_drops_interim [of rs] forEach_outputs_final [of _ rs]
  show ?thesis by simp
qed

theorem output_shaping_witness:
  "getprop sample_frame ''error'' = Some JUndefined \<and> \<not> truthy JUndefined
   \<and> actions (onmessage (JSONFrame sample_frame) object_stream)
       = [Emit (EvMessage (JSONFrame sample_frame)), Push sample_frame]
   \<and> actions (onmessage (JSONFrame sample_frame) sample_new)
       = [Emit (EvMessage (JSONFrame sample_frame)), Push (JStr ''hello world'')]
   \<and> outputs (actions (onmessage (JSONFrame listening_frame) sample_new)) = []"
proof -
  have u: "\<not> truthy JUndefined" by simp
  note A = output_shaping [OF sample_frame_facts(1) u, of object_stream sample_results]
  note B = output_shaping [OF sample_frame_facts(1) u, of sample_new sample_results]
  note C = output_shaping [OF sample_frame_facts(4) u, of sample_new]
  have 1: "actions (onmessage (JSONFrame sample_frame) object_stream)
       = [Emit (EvMessage (JSONFrame sample_frame)), Push sample_frame]"
    using A sample_frame_facts(2) sample_modes(1,3) by simp
  have 2: "actions (onmessage (JSONFrame sample_frame) sample_new)
       = [Emit (EvMessage (JSONFrame sample_frame)), Push (JStr ''hello world'')]"
    using B sample_frame_facts(2,3) sample_modes(2,4) sample_forEach by simp
  have 3: "outputs (actions (onmessage (JSONFrame listening_frame) sample_new)) = []"
    using C sample_frame_facts(5) sample_modes(4) by (simp add: outputs_def)
  show ?thesis
    using sample_frame_facts(1) 1 2 3 by simp
qed

text \<open>
  Claim C5 as stated fails in object mode: the output event is the frame, not the
  content of its \<open>results\<close> field.
\<close>

theorem structured_output_counterexample:
  "getprop sample_frame ''results'' = Some (JArr sample_results)
   \<and> outputs (actions (onmessage (JSONFrame sample_frame) object_stream))
       \<noteq> [Push (JArr sample_results)]"
proof -
  have "onmessage (JSONFrame sample_frame) object_stream
      = act [Emit (EvMessage (JSONFrame sample_frame)), push sample_frame] object_stream"
    using onmessage_result_frame [OF sample_frame_facts(1) _ sample_frame_facts(2), of object_stream]
      sample_modes(1)
    by simp
  then have "outputs (actions (onmessage (JSONFrame sample_frame) object_stream))
      = [Push sample_frame]"
    using sample_modes(3)
    by (simp add: outputs_def is_output_def push_def sample_frame_def)
  then show ?thesis
    using sample_frame_facts(3) by (simp add: sample_frame_def)
qed

text \<open>
  Claim C6. For the first chunk written to a stream that is not finished, when neither
  \<open>content-type\<close> nor \<open>content_type\<close> is set (and the token manager, if there is one,
  reports no error): if the sniffer recognises the chunk, the content type is the
  detected one, in the options and in the opening message, the socket is created and
  the chunk waits for it to open, without any output event; otherwise the write emits
  the error named \<open>UNRECOGNIZED_FORMAT\<close> and ends the output, \<open>initialize\<close> is not
  called and there is no socket, neither then nor after any later events other than
  writes (the write callback is not called, so that no further chunk is handed over).
\<close>

theorem content_type_resolution:
  assumes "\<not> initialized s" and "\<not> finished s" and "socket s = None"
    and "\<not> truthy (get (options s) ''content-type'')"
    and "\<not> truthy (get (options s) ''content_type'')"
    and "\<not> truthy err"
  shows
   "(truthy (fromHeader chunk) \<longrightarrow>
       (let s' = write_chunk fromHeader chunk (Reply err token) s in
          get (options s') ''content-type'' = fromHeader chunk
          \<and> get (handshake s') ''content-type'' = fromHeader chunk
          \<and> initialized s'
          \<and> socket s' = Some \<lparr>readyState = CONNECTING, bufferedAmount = 0\<rparr>
          \<and> open_once s' = open_once s @ [SendChunk chunk]
          \<and> outputs (actions s') = outputs (actions s)))
    \<and> (\<not> truthy (fromHeader chunk) \<longrightarrow>
       (let s' = write_chunk fromHeader chunk (Reply err token) s in
          actions s' = actions s
             @ [Emit (EvError ERROR_UNRECOGNIZED_FORMAT UNRECOGNIZED_MESSAGE), PushNull]
          \<and> \<not> initialized s'
          \<and> socket s' = None
          \<and> (\<forall>evs. (\<forall>e\<in>set evs. \<not> is_write e) \<longrightarrow>
                socket (run fromHeader evs s') = None)))"
proof -
  define s0 where "s0 = (if truthy (get (options s) ''token_manager'')
        then s\<lparr>options := AList.update ''headers''
                 (JObj (extend_obj (as_obj (get (options s) ''headers''))
                          [(''authorization'', JStr (''Bearer '' @ token))])) (options s)\<rparr>
        else s)"
  have w: "write_chunk fromHeader chunk (Reply err token) s
             = write_callback fromHeader chunk JNull s0"
    unfolding s0_def using assms(6) by (rule write_chunk_no_error)
  have f: "\<not> initialized s0" "\<not> finished s0" "socket s0 = None"
     "open_once s0 = open_once s" "actions s0 = actions s"
    using assms by (simp_all add: s0_def)
  have c: "\<not> truthy (get (options s0) ''content-type'')"
     "\<not> truthy (get (options s0) ''content_type'')"
    using assms by (simp_all add: s0_def get_update)
  have good: "truthy (fromHeader chunk) \<longrightarrow>
       (let s' = write_chunk fromHeader chunk (Reply err token) s in
          get (options s') ''content-type'' = fromHeader chunk
          \<and> get (handshake s') ''content-type'' = fromHeader chunk
          \<and> initialized s'
          \<and> socket s' = Some \<lparr>readyState = CONNECTING, bufferedAmount = 0\<rparr>
          \<and> open_once s' = open_once s @ [SendChunk chunk]
          \<and> outputs (actions s') = outputs (actions s))"
  proof
    assume t: "truthy (fromHeader chunk)"
    define s1 where
      "s1 = s0\<lparr>options := AList.update ''content-type'' (fromHeader chunk) (options s0)\<rparr>"
    have o: "\<not> truthy (get (options s1) ''content_type'')"
      using c by (simp add: s1_def get_update)
    have g: "get (apply_deprecated (options s1)) ''content-type'' = fromHeader chunk"
      using get_apply_deprecated_content_type [OF o] by (simp add: s1_def get_update)
    have e: "write_chunk fromHeader chunk (Reply err token) s
             = (initialize s1)\<lparr>open_once := open_once s0 @ [SendChunk chunk]\<rparr>"
      unfolding w s1_def by (rule write_callback_recognized
          [where fromHeader = fromHeader and chunk = chunk, OF f(1) f(2) c(1) c(2) t])
    have a: "actions s1 = actions s"
      using f(5) by (simp add: s1_def)
    show "let s' = write_chunk fromHeader chunk (Reply err token) s in
          get (options s') ''content-type'' = fromHeader chunk
          \<and> get (handshake s') ''content-type'' = fromHeader chunk
          \<and> initialized s'
          \<and> socket s' = Some \<lparr>readyState = CONNECTING, bufferedAmount = 0\<rparr>
          \<and> open_once s' = open_once s @ [SendChunk chunk]
          \<and> outputs (actions s') = outputs (actions s)"
      unfolding e Let_def
      using g f(4) a
      by (simp add: initialize_fields get_openingMessage_content_type)
  qed
  have bad: "\<not> truthy (fromHeader chunk) \<longrightarrow>
       (let s' = write_chunk fromHeader chunk (Reply err token) s in
          actions s' = actions s
             @ [Emit (EvError ERROR_UNRECOGNIZED_FORMAT UNRECOGNIZED_MESSAGE), PushNull]
          \<and> \<not> initialized s'
          \<and> socket s' = None
          \<and> (\<forall>evs. (\<forall>e\<in>set evs. \<not> is_write e) \<longrightarrow>
                socket (run fromHeader evs s') = None))"
  proof
    assume t: "\<not> truthy (fromHeader chunk)"
    define s2 where
      "s2 = act [Emit (EvError ERROR_UNRECOGNIZED_FORMAT UNRECOGNIZED_MESSAGE), PushNull] s0"
    have e: "write_chunk fromHeader chunk (Reply err token) s = s2"
      unfolding w s2_def by (rule write_callback_unrecognized
          [where fromHeader = fromHeader and chunk = chunk, OF f(1) f(2) c(1) c(2) t])
    have n: "socket s2 = None" "\<not> initialized s2"
      "actions s2 = actions s
             @ [Emit (EvError ERROR_UNRECOGNIZED_FORMAT UNRECOGNIZED_MESSAGE), PushNull]"
      using f by (simp_all add: s2_def act_def)
    show "let s' = write_chunk fromHeader chunk (Reply err token) s in
          actions s' = actions s
             @ [Emit (EvError ERROR_UNRECOGNIZED_FORMAT UNRECOGNIZED_MESSAGE), PushNull]
          \<and> \<not> initialized s'
          \<and> socket s' = None
          \<and> (\<forall>evs. (\<forall>e\<in>set evs. \<not> is_write e) \<longrightarrow>
                socket (run fromHeader evs s') = None)"
      unfolding e Let_def
      using n socket_None_run [OF n(1)] by simp
  qed
  from good bad show ?thesis by blast
qed

theorem content_type_resolution_witness:
  "\<not> initialized sample_new \<and> \<not> finished sample_new \<and> socket sample_new = None
   \<and> \<not> truthy (get (options sample_new) ''content-type'')
   \<and> \<not> truthy (get (options sample_new) ''content_type'')
   \<and> \<not> truthy JNull
   \<and> truthy (wav_sniffer RIFF) \<and> \<not> truthy (wav_sniffer noise)
   \<and> get (options (write_chunk wav_sniffer RIFF no_token sample_new)) ''content-type''
       = JStr ''audio/wav''
   \<and> socket (write_chunk wav_sniffer RIFF no_token sample_new)
       = Some \<lparr>readyState = CONNECTING, bufferedAmount = 0\<rparr>
   \<and> actions (write_chunk wav_sniffer noise no_token sample_new)
       = [Emit (EvError ERROR_UNRECOGNIZED_FORMAT UNRECOGNIZED_MESSAGE), PushNull]
   \<and> socket (write_chunk wav_sniffer noise no_token sample_new) = None
   \<and> socket (run wav_sniffer [Finish, SocketOpen, Timeout]
               (write_chunk wav_sniffer noise no_token sample_new)) = None"
proof -
  have h: "\<not> initialized sample_new" "\<not> finished sample_new" "socket sample_new = None"
    "\<not> truthy (get (options sample_new) ''content-type'')"
    "\<not> truthy (get (options sample_new) ''content_type'')" "\<not> truthy JNull"
    "actions sample_new = []"
    by (simp_all add: sample_new_def RecognizeStream_def get_def)
  have t: "truthy (wav_sniffer RIFF)" "\<not> truthy (wav_sniffer noise)"
    by (simp_all add: sniff_samples)
  have e: "\<forall>e\<in>set [Finish, SocketOpen, Timeout]. \<not> is_write e"
    by (simp add: is_write_def)
  note A = content_type_resolution
      [OF h(1) h(2) h(3) h(4) h(5) h(6), of wav_sniffer RIFF "[]", folded no_token_def]
  note B = content_type_resolution
      [OF h(1) h(2) h(3) h(4) h(5) h(6), of wav_sniffer noise "[]", folded no_token_def]
  have 1: "get (options (write_chunk wav_sniffer RIFF no_token sample_new)) ''content-type''
       = JStr ''audio/wav''"
     "socket (write_chunk wav_sniffer RIFF no_token sample_new)
       = Some \<lparr>readyState = CONNECTING, bufferedAmount = 0\<rparr>"
    using A t(1) by (simp_all add: Let_def sniff_samples)
  have 2: "actions (write_chunk wav_sniffer noise no_token sample_new)
       = [Emit (EvError ERROR_UNRECOGNIZED_FORMAT UNRECOGNIZED_MESSAGE), PushNull]"
    "socket (write_chunk wav_sniffer noise no_token sample_new) = None"
    "socket (run wav_sniffer [Finish, SocketOpen, Timeout]
               (write_chunk wav_sniffer noise no_token sample_new)) = None"
    using B t(2) h(7) e by (simp_all add: Let_def)
  show ?thesis
    using h t 1 2 by simp
qed

text \<open>
  Claim C7. In no step is the write callback handed over (\<open>process.nextTick(next)\<close>)
  unless the buffered amount of the socket is at or below the watermark in the state the
  step leaves. Every chunk that is sent is followed by the check of \<open>afterSend\<close>: a
  write on a flowing stream sends its chunk and then hands the callback over when the
  buffered amount is at or below the watermark, and arms a timer of 10 ms otherwise; so
  does, in the step in which the socket opens, every chunk that waited for the \<open>open\<close>
  event. A timer that fires repeats the check: it hands the callback over, or arms the
  next timer. Hence, after a send that finds the buffered amount above the watermark, a
  timer is armed at every check that finds it so, and the first timer after the amount
  has fallen to the watermark or below hands the callback over. On a flowing stream,
  whatever the waits, the chunks written are sent once each and in the order of the
  writes, and every write has its callback handed over or waiting on a timer.
\<close>

theorem backpressure:
  "(ticks (actions s) < ticks (actions (step fromHeader s e)) \<longrightarrow> drained (step fromHeader s e))
   \<and> (flowing s \<longrightarrow>
        actions (step fromHeader s (Write c reply))
          = actions s @ token_error_actions s reply
              @ [Emit (EvSendData c), SocketSendBinary c,
                 if drained s then NextTick else SetTimeout 10]
        \<and> timers (step fromHeader s (Write c reply))
          = (if drained s then timers s else Suc (timers s)))
   \<and> (connecting s \<longrightarrow>
        actions (step fromHeader s SocketOpen)
          = actions s @ [Emit (EvSendJson (handshake s)), SocketSendText (handshake s), Emit EvOpen]
              @ concat (map (open_listener_actions s) (open_once s)))
   \<and> (0 < timers s \<and> socket s \<noteq> None \<longrightarrow>
        actions (step fromHeader s Timeout)
          = actions s @ [if drained s then NextTick else SetTimeout 10]
        \<and> timers (step fromHeader s Timeout) = (if drained s then timers s - 1 else timers s))
   \<and> (socket s = Some sk \<and> watermark s < bufferedAmount sk \<and> n \<le> watermark s \<longrightarrow>
        actions (run fromHeader (replicate k Timeout @ [Buffered n, Timeout]) (afterSend s))
          = actions s @ replicate (Suc k) (SetTimeout 10) @ [NextTick])
   \<and> (flowing s \<and> socket s = Some sk \<and> watermark s < bufferedAmount sk \<and> n \<le> watermark s \<longrightarrow>
        actions (run fromHeader (Write c reply # replicate k Timeout @ [Buffered n, Timeout]) s)
          = actions s @ token_error_actions s reply @ [Emit (EvSendData c), SocketSendBinary c]
              @ replicate (Suc k) (SetTimeout 10) @ [NextTick])
   \<and> (flowing s \<and> (\<forall>e\<in>set evs. is_flow e) \<longrightarrow>
        binary_sends (actions (run fromHeader evs s)) = binary_sends (actions s) @ written evs
        \<and> ticks (actions (run fromHeader evs s)) + timers (run fromHeader evs s)
            = ticks (actions s) + timers s + length (written evs))"
proof -
  have a: "ticks (actions s) < ticks (actions (step fromHeader s e)) \<longrightarrow>
      drained (step fromHeader s e)"
    using ticks_step [of s fromHeader e] by blast
  have b: "flowing s \<longrightarrow>
        actions (step fromHeader s (Write c reply))
          = actions s @ token_error_actions s reply
              @ [Emit (EvSendData c), SocketSendBinary c,
                 if drained s then NextTick else SetTimeout 10]
        \<and> timers (step fromHeader s (Write c reply))
          = (if drained s then timers s else Suc (timers s))"
    using write_chunk_flowing [of s fromHeader c reply] by (simp add: afterSend_action_def)
  have c: "connecting s \<longrightarrow>
        actions (step fromHeader s SocketOpen)
          = actions s @ [Emit (EvSendJson (handshake s)), SocketSendText (handshake s), Emit EvOpen]
              @ concat (map (open_listener_actions s) (open_once s))"
    using step_SocketOpen_actions [of s fromHeader] by blast
  have d: "0 < timers s \<and> socket s \<noteq> None \<longrightarrow>
        actions (step fromHeader s Timeout)
          = actions s @ [if drained s then NextTick else SetTimeout 10]
        \<and> timers (step fromHeader s Timeout) = (if drained s then timers s - 1 else timers s)"
    using step_Timeout_actions [of s fromHeader]
    by (simp add: afterSend_action_def del: step.simps)
  have f: "flowing s \<and> (\<forall>e\<in>set evs. is_flow e) \<longrightarrow>
        binary_sends (actions (run fromHeader evs s)) = binary_sends (actions s) @ written evs
        \<and> ticks (actions (run fromHeader evs s)) + timers (run fromHeader evs s)
            = ticks (actions s) + timers s + length (written evs)"
    using flowing_run [of s evs fromHeader] callbacks_run [of s evs fromHeader] by blast
  from a b c d f polling [of s sk n fromHeader k] write_then_poll [of s sk n fromHeader c reply k]
  show ?thesis by blast
qed

theorem backpressure_witness:
  "ticks (actions sample_open) < ticks (actions (step wav_sniffer sample_open (Write noise no_token)))
   \<and> drained (step wav_sniffer sample_open (Write noise no_token))
   \<and> flowing sample_congested
   \<and> actions (step wav_sniffer sample_congested (Write noise no_token))
       = actions sample_congested @ [Emit (EvSendData noise), SocketSendBinary noise, SetTimeout 10]
   \<and> timers (step wav_sniffer sample_congested (Write noise no_token)) = 1
   \<and> connecting sample_connecting
   \<and> actions (step wav_sniffer sample_connecting SocketOpen)
       = actions sample_connecting
           @ [Emit (EvSendJson (handshake sample_connecting)),
              SocketSendText (handshake sample_connecting), Emit EvOpen,
              Emit (EvSendData RIFF), SocketSendBinary RIFF, NextTick]
   \<and> 0 < timers (afterSend sample_congested)
   \<and> socket (afterSend sample_congested) \<noteq> None
   \<and> actions (step wav_sniffer (afterSend sample_congested) Timeout)
       = actions sample_congested @ [SetTimeout 10, SetTimeout 10]
   \<and> socket sample_congested = Some \<lparr>readyState = OPEN, bufferedAmount = 20000\<rparr>
   \<and> watermark sample_congested < 20000 \<and> 100 \<le> watermark sample_congested
   \<and> actions (run wav_sniffer (replicate 2 Timeout @ [Buffered 100, Timeout])
               (afterSend sample_congested))
       = actions sample_congested @ replicate (Suc 2) (SetTimeout 10) @ [NextTick]
   \<and> actions (run wav_sniffer
                 (Write noise no_token # replicate 2 Timeout @ [Buffered 100, Timeout])
                 sample_congested)
       = actions sample_congested @ [Emit (EvSendData noise), SocketSendBinary noise]
           @ replicate (Suc 2) (SetTimeout 10) @ [NextTick]
   \<and> flowing sample_open
   \<and> binary_sends (actions (run wav_sniffer flow_run sample_open)) = [RIFF, noise, RIFF]
   \<and> ticks (actions (run wav_sniffer flow_run sample_open))
       + timers (run wav_sniffer flow_run sample_open) = 3"
proof -
  have w: "actions (step wav_sniffer sample_open (Write noise no_token))
     = actions sample_open @ [Emit (EvSendData noise), SocketSendBinary noise, NextTick]"
    by (simp add: write_chunk_unfold no_token_def write_callback_unfold sample_open_def
        get_def is_open_def afterSend_def watermark_def act_def)
  have t: "ticks (actions sample_open)
             < ticks (actions (step wav_sniffer sample_open (Write noise no_token)))"
    unfolding w by (simp add: ticks_append)
  have c: "socket sample_congested = Some \<lparr>readyState = OPEN, bufferedAmount = 20000\<rparr>"
    "watermark sample_congested < 20000" "100 \<le> watermark sample_congested"
    "flowing sample_congested" "\<not> drained sample_congested" "timers sample_congested = 0"
    "token_error_actions sample_congested no_token = []"
    by (simp_all add: sample_congested_def sample_open_def watermark_def flowing_def
        is_open_def drained_def token_error_actions_def no_token_def get_def)
  have g: "connecting sample_connecting" "drained sample_connecting"
    "open_once sample_connecting = [SendChunk RIFF]"
    by (simp_all add: sample_connecting_def connecting_def drained_def watermark_def)
  have p: "0 < timers (afterSend sample_congested)" "socket (afterSend sample_congested) \<noteq> None"
    "\<not> drained (afterSend sample_congested)"
    "actions (afterSend sample_congested) = actions sample_congested @ [SetTimeout 10]"
    using c(1,5) by (simp_all add: afterSend_def drained_def watermark_def)
  have f: "\<forall>e\<in>set flow_run. is_flow e" "written flow_run = [noise, RIFF]"
    by (simp_all add: flow_run_def is_flow_def no_token_def)
  have o: "ticks (actions sample_open) = 1" "timers sample_open = 0"
    by (simp_all add: sample_open_def)
  note A = backpressure [where s = sample_open and fromHeader = wav_sniffer
      and e = "Write noise no_token" and evs = flow_run]
  note B = backpressure [where s = sample_congested and fromHeader = wav_sniffer
      and c = noise and reply = no_token
      and sk = "\<lparr>readyState = OPEN, bufferedAmount = 20000\<rparr>" and n = 100 and k = 2]
  note C = backpressure [where s = sample_connecting and fromHeader = wav_sniffer]
  note D = backpressure [where s = "afterSend sample_congested" and fromHeader = wav_sniffer]
  have 1: "drained (step wav_sniffer sample_open (Write noise no_token))"
    using A t by blast
  have 2: "actions (step wav_sniffer sample_congested (Write noise no_token))
       = actions sample_congested @ [Emit (EvSendData noise), SocketSendBinary noise, SetTimeout 10]"
    "timers (step wav_sniffer sample_congested (Write noise no_token)) = 1"
    using B c(4,5,6,7) by simp_all
  have 3: "actions (step wav_sniffer sample_connecting SocketOpen)
       = actions sample_connecting
           @ [Emit (EvSendJson (handshake sample_connecting)),
              SocketSendText (handshake sample_connecting), Emit EvOpen,
              Emit (EvSendData RIFF), SocketSendBinary RIFF, NextTick]"
    using C g by (simp add: afterSend_action_def del: step.simps)
  have 4: "actions (step wav_sniffer (afterSend sample_congested) Timeout)
       = actions sample_congested @ [SetTimeout 10, SetTimeout 10]"
    using D p by (simp del: step.simps)
  have 5: "actions (run wav_sniffer (replicate 2 Timeout @ [Buffered 100, Timeout])
               (afterSend sample_congested))
       = actions sample_congested @ replicate (Suc 2) (SetTimeout 10) @ [NextTick]"
    using B c(1,2,3) by simp
  have 6: "actions (run wav_sniffer
                 (Write noise no_token # replicate 2 Timeout @ [Buffered 100, Timeout])
                 sample_congested)
       = actions sample_congested @ [Emit (EvSendData noise), SocketSendBinary noise]
           @ replicate (Suc 2) (SetTimeout 10) @ [NextTick]"
    using B c(1,2,3,4,7) by simp
  have 7: "binary_sends (actions (run wav_sniffer flow_run sample_open)) = [RIFF, noise, RIFF]"
    "ticks (actions (run wav_sniffer flow_run sample_open))
       + timers (run wav_sniffer flow_run sample_open) = 3"
    using A f o sample_open_facts(2,4) by simp_all
  show ?thesis
    using t 1 c(1,2,3,4) 2 g(1) 3 p(1,2) 4 5 6 7 sample_open_facts(2) by simp
qed

text \<open>
  Claim C10, as amended. In text mode, for every inbound frame whose \<open>results\<close> field
  is an array: an error frame and a \<open>listening\<close> frame push nothing; on any other
  frame the pushes are, in the order of the results, the transcript of the first
  alternative of each result that is final and has alternatives, for the results that
  precede the first result that the loop cannot read (an element that is \<open>null\<close> or
  \<open>undefined\<close>, or a final result whose alternatives have no first element, such as
  an empty array), where the loop ends with a TypeError; when every result can be read,
  these are all the final results with alternatives. No other alternative is pushed;
  and a result without an \<open>alternatives\<close> field, final or not, pushes nothing.
\<close>

theorem text_mode_first_alternative:
  assumes "get frame ''results'' = JArr rs"
    and "\<not> truthy (get (options s) ''readableObjectMode'')"
  shows "actions (onmessage (JSONFrame (JObj frame)) s)
           = actions s @ Emit (EvMessage (JSONFrame (JObj frame)))
               # (if truthy (get frame ''error'')
                  then [Emit (EvError ''Error'' (get frame ''error''))]
                  else if get frame ''state'' = JStr ''listening''
                  then (if listening s then [SocketClose] else [Emit EvListening])
                  else map (\<lambda>r. push (transcript_of r))
                         (filter emits_transcript (takeWhile readable rs))
                       @ (if list_all readable rs then [] else [Throw ''TypeError'']))
     \<and> (\<forall>kvs. \<not> has_key kvs ''alternatives'' \<longrightarrow> forEach_result [JObj kvs] = [])"
proof -
  have a: "actions (onmessage (JSONFrame (JObj frame)) s)
           = actions s @ Emit (EvMessage (JSONFrame (JObj frame)))
               # (if truthy (get frame ''error'')
                  then [Emit (EvError ''Error'' (get frame ''error''))]
                  else if get frame ''state'' = JStr ''listening''
                  then (if listening s then [SocketClose] else [Emit EvListening])
                  else forEach_result rs)"
    using assms by (simp add: onmessage_object_frame Let_def socket_close_def)
  have b: "\<forall>kvs. \<not> has_key kvs ''alternatives'' \<longrightarrow> forEach_result [JObj kvs] = []"
    by (simp add: result_push_def has_key_def get_def)
  from a b show ?thesis
    unfolding forEach_takeWhile [symmetric] by simp
qed

theorem text_mode_first_alternative_witness:
  "get [(''results'', JArr sample_results), (''result_index'', JNum 0)] ''results''
     = JArr sample_results
   \<and> \<not> truthy (get (options sample_new) ''readableObjectMode'')
   \<and> list_all readable sample_results
   \<and> map (\<lambda>r. push (transcript_of r)) (filter emits_transcript sample_results)
       = [Push (JStr ''hello world'')]
   \<and> actions (onmessage (JSONFrame sample_frame) sample_new)
       = [Emit (EvMessage (JSONFrame sample_frame)), Push (JStr ''hello world'')]
   \<and> \<not> has_key [(''final'', JBool True)] ''alternatives''
   \<and> forEach_result [JObj [(''final'', JBool True)]] = []"
proof -
  let ?frame = "[(''results'', JArr sample_results), (''result_index'', JNum 0)]"
  have g: "get ?frame ''results'' = JArr sample_results"
    "\<not> truthy (get ?frame ''error'')" "get ?frame ''state'' \<noteq> JStr ''listening''"
    by (simp_all add: get_def)
  have sh: "list_all readable sample_results"
    by (simp add: sample_results_def readable_def emits_transcript_def is_final_def
        first_alternative_def get_def)
  then have tw: "takeWhile readable sample_results = sample_results"
    by (simp add: list_all_iff)
  have m: "map (\<lambda>r. push (transcript_of r)) (filter emits_transcript sample_results)
       = [Push (JStr ''hello world'')]"
    by (simp add: sample_results_def emits_transcript_def is_final_def transcript_of_def
        first_transcript_def get_def push_def)
  have k: "\<not> has_key [(''final'', JBool True)] ''alternatives''"
    by (simp add: has_key_def)
  note T = text_mode_first_alternative [OF g(1) sample_modes(2)]
  have 1: "actions (onmessage (JSONFrame sample_frame) sample_new)
       = [Emit (EvMessage (JSONFrame sample_frame)), Push (JStr ''hello world'')]"
    using T [THEN conjunct1] g(2,3) sh tw m sample_modes(4)
    by (simp add: sample_frame_def)
  have 2: "forEach_result [JObj [(''final'', JBool True)]] = []"
    using T [THEN conjunct2] k by blast
  show ?thesis
    using g(1) sample_modes(2) sh m 1 k 2 by simp
qed

text \<open>
  Claim C10 as stated fails on frames whose \<open>results\<close> are an array. When a final
  result with an empty array of alternatives precedes a final result with a transcript,
  the handler ends with a TypeError and the transcript is not pushed; and on a frame that
  carries an error beside its results, no transcript is pushed.
\<close>

theorem lost_transcript_counterexample:
  "get lost_frame ''results'' = JArr lost_results
   \<and> is_final (lost_results ! 1)
   \<and> first_transcript (lost_results ! 1) = Some (JStr ''lost'')
   \<and> actions (onmessage (JSONFrame (JObj lost_frame)) sample_new)
       = [Emit (EvMessage (JSONFrame (JObj lost_frame))), Throw ''TypeError'']
   \<and> get error_results_frame ''results'' = JArr sample_results
   \<and> is_final (sample_results ! 1)
   \<and> first_transcript (sample_results ! 1) = Some (JStr ''hello world'')
   \<and> outputs (actions (onmessage (JSONFrame (JObj error_results_frame)) sample_new)) = []"
proof -
  have l: "get lost_frame ''results'' = JArr lost_results"
    "\<not> truthy (get lost_frame ''error'')" "get lost_frame ''state'' \<noteq> JStr ''listening''"
    by (simp_all add: lost_frame_def get_def)
  have f: "forEach_result lost_results = [Throw ''TypeError'']"
    by (simp add: lost_results_def result_push_def get_def)
  have a: "actions (onmessage (JSONFrame (JObj lost_frame)) sample_new)
       = [Emit (EvMessage (JSONFrame (JObj lost_frame))), Throw ''TypeError'']"
    using l f sample_modes(2,4) by (simp add: onmessage_object_frame Let_def)
  have b: "is_final (lost_results ! 1)" "first_transcript (lost_results ! 1) = Some (JStr ''lost'')"
    by (simp_all add: lost_results_def is_final_def first_transcript_def get_def)
  have e: "get error_results_frame ''results'' = JArr sample_results"
    "truthy (get error_results_frame ''error'')"
    by (simp_all add: error_results_frame_def get_def)
  have c: "outputs (actions (onmessage (JSONFrame (JObj error_results_frame)) sample_new)) = []"
    using e(2) sample_modes(4)
    by (simp add: onmessage_object_frame Let_def outputs_def is_output_def)
  have d: "is_final (sample_results ! 1)"
    "first_transcript (sample_results ! 1) = Some (JStr ''hello world'')"
    by (simp_all add: sample_results_def is_final_def first_transcript_def get_def)
  show ?thesis
    using l(1) b a e(1) d c by simp
qed

end
